theory Spec2Isabelle
  imports Complex_Main "HOL-Library.AList"
begin

section \<open>Data model (src/types.ts)\<close>

text \<open>
  JavaScript numbers are modelled as real numbers: no rounding, no NaN and no infinities.
  A value of type \<open>number | null\<close> is a \<open>real option\<close>. An object used as a dictionary
  (\<open>Record<string, T>\<close>) is an association list in insertion order, which is the order
  \<open>Object.entries\<close> and \<open>Object.values\<close> enumerate string keys in; it is read with
  \<open>map_of\<close> and written with \<open>AList.update\<close>, which keeps the position of a key that is
  already present.
\<close>

record Primary =
  pTitle :: string
  pValue :: "real option"
  pUnit :: string

record Peer =
  peerTitle :: string
  peerValue :: "real option"
  peerUnit :: string
  relationship :: real

record Tick =
  date :: string
  country :: string
  indicator :: string
  primary :: Primary
  peers :: "Peer list"

record ForecastResult =
  prediction :: real
  fUnit :: string
  rationale :: string
  confidence :: real

record JudgeResult =
  accuracy :: real
  jError :: real
  feedback :: string

record BacktestTickResult =
  tickIndex :: nat
  tickData :: Tick
  forecasts :: "(string \<times> ForecastResult) list"
  evaluations :: "(string \<times> JudgeResult) list"

text \<open>
  \<open>modelName\<close> is the second element of \<open>modelId.split('::')\<close>, which is \<open>undefined\<close>
  (here \<open>None\<close>) when the identifier holds no separator.
\<close>

record ModelBenchmark =
  modelId :: string
  modelName :: "string option"
  provider :: string
  completionRate :: real
  directionalAccuracy :: real
  rmse :: real
  brierScore :: real
  avgConfidence :: real
  compositeScore :: real
  predictions :: nat

datatype Reason = InsufficientCoverage | Failed

text \<open>
  An entry built as \<open>{...bench, reason, totalTicks}\<close> carries every property of the
  benchmark it spreads; \<open>spread\<close> holds that benchmark, and is \<open>None\<close> for an entry built
  from a literal.
\<close>

record ExcludedModel =
  xModelId :: string
  xModelName :: "string option"
  xProvider :: string
  reason :: Reason
  message :: "string option"
  xPredictions :: nat
  totalTicks :: int
  spread :: "ModelBenchmark option"

record BacktestResults =
  overallCompositeScore :: real
  overallDirectionalAccuracy :: real
  overallMagnitudeRmse :: real
  overallAvgConfidence :: real
  topPerformers :: "ModelBenchmark list"
  excludedModels :: "ExcludedModel list"

datatype js_error = TypeError | Error string

section \<open>Strings and truthiness\<close>

text \<open>\<open>s.split('::')\<close>: the pieces between the non-overlapping separators, found left to right.\<close>

fun split_dc :: "string \<Rightarrow> string \<Rightarrow> string list" where
  "split_dc acc [] = [rev acc]"
| "split_dc acc [c] = [rev (c # acc)]"
| "split_dc acc (c # d # cs) =
     (if c = CHR '':'' \<and> d = CHR '':'' then rev acc # split_dc [] cs
      else split_dc (c # acc) (d # cs))"

text \<open>The destructuring \<open>const [provider, modelName] = modelId.split('::')\<close>.\<close>

definition splitId :: "string \<Rightarrow> string \<times> string option" where
  "splitId mid =
     (case split_dc [] mid of
        [] \<Rightarrow> ([], None)
      | [p] \<Rightarrow> (p, None)
      | p # m # _ \<Rightarrow> (p, Some m))"

text \<open>A property key that is \<open>undefined\<close> is converted to the string \<open>undefined\<close>.\<close>

definition propKey :: "string option \<Rightarrow> string" where
  "propKey k = (case k of None \<Rightarrow> ''undefined'' | Some s \<Rightarrow> s)"

text \<open>
  \<open>obj[key]\<close> used as a condition, for an object of strings: true when the key is present
  with a non-empty string.
\<close>

definition truthy :: "(string \<times> string) list \<Rightarrow> string \<Rightarrow> bool" where
  "truthy obj k = (case map_of obj k of None \<Rightarrow> False | Some s \<Rightarrow> s \<noteq> [])"

text \<open>\<open>obj[key] || dflt\<close>.\<close>

definition orElse :: "(string \<times> string) list \<Rightarrow> string \<Rightarrow> string \<Rightarrow> string" where
  "orElse obj k dflt = (if truthy obj k then the (map_of obj k) else dflt)"

section \<open>The aggregate scoring engine (calculateAggregateScores)\<close>

definition PARTICIPATION_THRESHOLD :: real where
  "PARTICIPATION_THRESHOLD = 80"

definition emptyResults :: BacktestResults where
  "emptyResults =
     \<lparr> overallCompositeScore = 0, overallDirectionalAccuracy = 0,
       overallMagnitudeRmse = 0, overallAvgConfidence = 0,
       topPerformers = [], excludedModels = [] \<rparr>"

text \<open>The entry of a model when there are no tick results at all.\<close>

definition noResultsEntry ::
  "Tick list \<Rightarrow> (string \<times> string) list \<Rightarrow> string \<Rightarrow> ExcludedModel" where
  "noResultsEntry ticks errors mid =
     (case splitId mid of (prov, mname) \<Rightarrow>
        \<lparr> xModelId = mid,
          xModelName = Some (case mname of None \<Rightarrow> mid | Some m \<Rightarrow> if m = [] then mid else m),
          xProvider = prov,
          reason = Failed,
          message = Some (orElse errors (propKey mname)
                            ''No successful predictions were generated.''),
          xPredictions = 0,
          totalTicks = int (length ticks) - 1,
          spread = None \<rparr>)"

record Stats =
  sPredictions :: "real list"
  confidences :: "real list"
  actuals :: "real list"
  prevActuals :: "real list"

definition noStats :: Stats where
  "noStats = \<lparr> sPredictions = [], confidences = [], actuals = [], prevActuals = [] \<rparr>"

definition initStats :: "string list \<Rightarrow> (string \<times> Stats) list" where
  "initStats models = fold (\<lambda>mid st. AList.update mid noStats st) models []"

text \<open>The body of the \<open>forEach\<close> over one tick result's forecasts.\<close>

definition pushSample ::
  "real \<Rightarrow> real \<Rightarrow> string \<times> ForecastResult \<Rightarrow> (string \<times> Stats) list \<Rightarrow> (string \<times> Stats) list" where
  "pushSample prevActual currentActual e st =
     (case e of (mid, forecast) \<Rightarrow>
        (case map_of st mid of
           None \<Rightarrow> st
         | Some s \<Rightarrow>
             AList.update mid
               \<lparr> sPredictions = sPredictions s @ [prediction forecast],
                 confidences = confidences s @ [confidence forecast],
                 actuals = actuals s @ [currentActual],
                 prevActuals = prevActuals s @ [prevActual] \<rparr> st))"

text \<open>
  One iteration of the loop over the tick results. The index \<open>i\<close> is the position in the
  list of tick results, and the same \<open>i\<close> indexes \<open>ticks\<close>. Reading \<open>ticks[i].primary\<close>
  beyond the end of \<open>ticks\<close> throws; \<open>ticks[i + 1]?.primary.value\<close> is \<open>undefined\<close> there.
\<close>

definition extractStep ::
  "Tick list \<Rightarrow> BacktestTickResult list \<Rightarrow> nat \<Rightarrow>
   js_error + (string \<times> Stats) list \<Rightarrow> js_error + (string \<times> Stats) list" where
  "extractStep ticks tickResults i acc =
     (case acc of
        Inl e \<Rightarrow> Inl e
      | Inr st \<Rightarrow>
          if length ticks \<le> i then Inl TypeError
          else
            (case (pValue (primary (ticks ! i)),
                   if i + 1 < length ticks then pValue (primary (ticks ! (i + 1))) else None) of
               (Some prevActual, Some currentActual) \<Rightarrow>
                  Inr (fold (pushSample prevActual currentActual) (forecasts (tickResults ! i)) st)
             | _ \<Rightarrow> Inr st))"

definition extractSeries ::
  "Tick list \<Rightarrow> BacktestTickResult list \<Rightarrow> string list \<Rightarrow> js_error + (string \<times> Stats) list" where
  "extractSeries ticks tickResults models =
     fold (extractStep ticks tickResults) [0..<length tickResults] (Inr (initStats models))"

text \<open>
  \<open>Math.max(...xs) - Math.min(...xs)\<close>; for the empty list this is \<open>-Infinity\<close>, here \<open>None\<close>.
\<close>

definition actualsRange :: "real list \<Rightarrow> real option" where
  "actualsRange xs = (if xs = [] then None else Some (Max (set xs) - Min (set xs)))"

text \<open>The loop over the samples of one model.\<close>

definition outcome :: "real \<Rightarrow> real \<Rightarrow> real \<Rightarrow> real" where
  "outcome pred actual prevActual =
     (let predictedDirection = sgn (pred - prevActual);
          actualDirection = sgn (actual - prevActual)
      in if predictedDirection = actualDirection
            \<or> (actualDirection = 0 \<and> predictedDirection = 0) then 1 else 0)"

definition sampleStep :: "Stats \<Rightarrow> nat \<Rightarrow> nat \<times> real \<times> real \<Rightarrow> nat \<times> real \<times> real" where
  "sampleStep stats i acc =
     (case acc of (correctDirections, squaredErrorSum, brierScoreSum) \<Rightarrow>
        (let pred = sPredictions stats ! i;
             actual = actuals stats ! i;
             prevActual = prevActuals stats ! i;
             conf = confidences stats ! i;
             oc = outcome pred actual prevActual
         in ((if oc = 1 then correctDirections + 1 else correctDirections),
             squaredErrorSum + (actual - pred)\<^sup>2,
             brierScoreSum + (conf - oc)\<^sup>2)))"

definition normRmseOf :: "real option \<Rightarrow> real \<Rightarrow> real" where
  "normRmseOf actualsRng r =
     (case actualsRng of
        None \<Rightarrow> 0
      | Some ar \<Rightarrow> if ar > 0 then 1 - min 1 (r / ar) else 0)"

definition benchmarkOf ::
  "real option \<Rightarrow> int \<Rightarrow> string \<Rightarrow> Stats \<Rightarrow> ModelBenchmark option" where
  "benchmarkOf actualsRng totalPossibleTicks mid stats =
     (let n = length (sPredictions stats) in
      if n = 0 then None
      else
        (case fold (sampleStep stats) [0..<n] (0, 0, 0) of
           (correctDirections, squaredErrorSum, brierScoreSum) \<Rightarrow>
             (let dirAcc = (real correctDirections / real n) * 100;
                  rmseV = sqrt (squaredErrorSum / real n);
                  brier = brierScoreSum / real n;
                  avgConf = foldl (+) 0 (confidences stats) / real n * 100;
                  normDirAcc = dirAcc / 100;
                  normRmse = normRmseOf actualsRng rmseV;
                  normConfidence = avgConf / 100;
                  composite = (0.4 * normDirAcc + 0.3 * normRmse
                               + 0.2 * normConfidence + 0.1 * (1 - brier)) * 100
              in (case splitId mid of (prov, mname) \<Rightarrow>
                    Some \<lparr> modelId = mid, modelName = mname, provider = prov,
                           completionRate = (real n / real_of_int totalPossibleTicks) * 100,
                           directionalAccuracy = dirAcc,
                           rmse = rmseV,
                           brierScore = brier,
                           avgConfidence = avgConf,
                           compositeScore = composite,
                           predictions = n \<rparr>))))"

definition benchmarksOf ::
  "Tick list \<Rightarrow> (string \<times> Stats) list \<Rightarrow> string list \<Rightarrow> ModelBenchmark list" where
  "benchmarksOf ticks statsByModel models =
     (let actualsRng = actualsRange (concat (map (\<lambda>e. actuals (snd e)) statsByModel));
          totalPossibleTicks = int (length ticks) - 1
      in List.map_filter
           (\<lambda>mid. case map_of statsByModel mid of
                     None \<Rightarrow> None
                   | Some stats \<Rightarrow> benchmarkOf actualsRng totalPossibleTicks mid stats)
           models)"

definition insufficientEntry :: "int \<Rightarrow> ModelBenchmark \<Rightarrow> ExcludedModel" where
  "insufficientEntry totalPossibleTicks bench =
     \<lparr> xModelId = modelId bench, xModelName = modelName bench, xProvider = provider bench,
       reason = InsufficientCoverage, message = None,
       xPredictions = predictions bench, totalTicks = totalPossibleTicks,
       spread = Some bench \<rparr>"

definition failedEntry :: "int \<Rightarrow> (string \<times> string) list \<Rightarrow> string \<Rightarrow> ExcludedModel" where
  "failedEntry totalPossibleTicks errors mid =
     (case splitId mid of (prov, mname) \<Rightarrow>
        \<lparr> xModelId = mid, xModelName = mname, xProvider = prov,
          reason = Failed,
          message = Some (orElse errors (propKey mname)
                            ''Model failed to produce any valid output.''),
          xPredictions = 0, totalTicks = totalPossibleTicks,
          spread = None \<rparr>)"

definition avg :: "real list \<Rightarrow> real" where
  "avg arr = (if length arr > 0 then foldl (+) 0 arr / real (length arr) else 0)"

definition filterTop :: "ModelBenchmark list \<Rightarrow> ModelBenchmark list" where
  "filterTop benchmarks =
     filter (\<lambda>bench. \<not> completionRate bench < PARTICIPATION_THRESHOLD) benchmarks"

definition filterExcluded ::
  "Tick list \<Rightarrow> (string \<times> string) list \<Rightarrow> string list \<Rightarrow> ModelBenchmark list \<Rightarrow> ExcludedModel list" where
  "filterExcluded ticks errors models benchmarks =
     (let totalPossibleTicks = int (length ticks) - 1 in
      map (insufficientEntry totalPossibleTicks)
          (filter (\<lambda>bench. completionRate bench < PARTICIPATION_THRESHOLD) benchmarks)
      @ map (failedEntry totalPossibleTicks errors)
          (filter (\<lambda>mid. mid \<notin> set (map modelId benchmarks)) models))"

definition summarise :: "ModelBenchmark list \<Rightarrow> ExcludedModel list \<Rightarrow> BacktestResults" where
  "summarise performers excluded =
     (let ranked = sort_key (\<lambda>b. - compositeScore b) performers in
      if length ranked = 0 then emptyResults \<lparr> excludedModels := excluded \<rparr>
      else
        \<lparr> overallCompositeScore = avg (map compositeScore ranked),
          overallDirectionalAccuracy = avg (map directionalAccuracy ranked),
          overallMagnitudeRmse = avg (map rmse ranked),
          overallAvgConfidence = avg (map avgConfidence ranked),
          topPerformers = ranked,
          excludedModels = excluded \<rparr>)"

definition calculateAggregateScores ::
  "Tick list \<Rightarrow> BacktestTickResult list \<Rightarrow> string list \<Rightarrow> (string \<times> string) list \<Rightarrow>
   js_error + BacktestResults" where
  "calculateAggregateScores ticks tickResults allAttemptedModels errors =
     (if length tickResults = 0 then
        Inr (emptyResults \<lparr> excludedModels := map (noResultsEntry ticks errors) allAttemptedModels \<rparr>)
      else
        (case extractSeries ticks tickResults allAttemptedModels of
           Inl e \<Rightarrow> Inl e
         | Inr statsByModel \<Rightarrow>
             (let benchmarks = benchmarksOf ticks statsByModel allAttemptedModels
              in Inr (summarise (filterTop benchmarks)
                        (filterExcluded ticks errors allAttemptedModels benchmarks)))))"

section \<open>Calling a model\<close>

text \<open>
  \<open>generateJsonContent\<close> performs the network call and is the boundary of the model: a
  call either fulfils with a value or rejects with what was thrown, an \<open>Error\<close> object with
  its message or some other value with its \<open>String(...)\<close> rendering. Besides the errors it
  builds itself, it passes on unchanged every \<open>Error\<close> that \<open>fetch\<close>, the parsing of the
  response or the provider's library throws, so no message is excluded. The environment
  of a run fixes the outcome of every call: of the \<open>k\<close>-th call a forecaster receives for
  a tick (the prompt text depends on the tick and on the feedback handed over), of the
  judge's call for a forecast, and of every \<open>Math.random()\<close>.

  The source does not validate the parsed JSON of a fulfilled call. Here a fulfilled call
  carries a value of the declared result type, \<open>ForecastResult\<close> or \<open>JudgeResult\<close>, with
  numbers in its numeric fields; answers of another shape are not covered.
\<close>

datatype Thrown = ErrorObj string | NonError string

datatype 'a Outcome = Fulfilled 'a | Rejected Thrown

record Perf =
  perfPrediction :: real
  perfActual :: real
  perfError :: real

record Env =
  forecaster :: "nat \<Rightarrow> string \<Rightarrow> string list \<Rightarrow> nat \<Rightarrow> ForecastResult Outcome"
  judge :: "nat \<Rightarrow> string \<Rightarrow> Perf list \<Rightarrow> ForecastResult \<Rightarrow> real \<Rightarrow> JudgeResult Outcome"
  random :: "nat \<Rightarrow> string \<Rightarrow> nat \<Rightarrow> real"

text \<open>
  \<open>toLowerCase\<close> and \<open>includes\<close>. Only the letters \<open>A\<close> to \<open>Z\<close> are lowered: the lowered
  message is used for nothing but the search of the six ASCII substrings below, and no
  other character below 256 is lowered to an ASCII character, so that the search has the
  answer it has in the source.
\<close>

definition toLowerChar :: "char \<Rightarrow> char" where
  "toLowerChar c =
     (let n = (of_char c :: nat) in if 65 \<le> n \<and> n \<le> 90 then char_of (n + 32) else c)"

definition toLowerCase :: "string \<Rightarrow> string" where
  "toLowerCase s = map toLowerChar s"

fun startsWith :: "string \<Rightarrow> string \<Rightarrow> bool" where
  "startsWith s [] = True"
| "startsWith [] (p # ps) = False"
| "startsWith (c # cs) (p # ps) = (c = p \<and> startsWith cs ps)"

fun includesStr :: "string \<Rightarrow> string \<Rightarrow> bool" where
  "includesStr [] sub = (sub = [])"
| "includesStr (c # cs) sub = (startsWith (c # cs) sub \<or> includesStr cs sub)"

definition lowerMessage :: "Thrown \<Rightarrow> string" where
  "lowerMessage err = (case err of ErrorObj m \<Rightarrow> toLowerCase m | NonError s \<Rightarrow> toLowerCase s)"

definition isRetryable :: "string \<Rightarrow> bool" where
  "isRetryable errorMessage =
     (includesStr errorMessage ''rate limit'' \<or> includesStr errorMessage ''500''
      \<or> includesStr errorMessage ''502'' \<or> includesStr errorMessage ''503''
      \<or> includesStr errorMessage ''504'' \<or> includesStr errorMessage ''overloaded'')"

section \<open>The retry wrapper (getForecastWithRetries)\<close>

text \<open>
  What the wrapper does, in order: \<open>Call k ok\<close> is its call number \<open>k\<close> (from 0) of
  \<open>generateJsonContent\<close> and whether it fulfilled, \<open>Sleep d\<close> is \<open>await sleep(d)\<close> with \<open>d\<close>
  in milliseconds.
\<close>

datatype Step = Call nat bool | Sleep real

definition maxRetries :: nat where
  "maxRetries = 3"

text \<open>
  The \<open>while\<close> loop, from a value of the counter \<open>attempts\<close>. Every iteration makes one
  call and every iteration that goes on increments the counter, so the call made when the
  counter is \<open>attempts\<close> is call number \<open>attempts\<close>. \<open>gen k\<close> is the outcome of call \<open>k\<close>
  and \<open>rnd a\<close> the value of \<open>Math.random()\<close> drawn when the counter has become \<open>a\<close>.
\<close>

function retryLoop ::
  "(nat \<Rightarrow> ForecastResult Outcome) \<Rightarrow> (nat \<Rightarrow> real) \<Rightarrow> string \<Rightarrow> nat \<Rightarrow>
   ForecastResult Outcome \<times> Step list" where
  "retryLoop gen rnd mid attempts =
     (if attempts < maxRetries then
        (case gen attempts of
           Fulfilled v \<Rightarrow> (Fulfilled v, [Call attempts True])
         | Rejected err \<Rightarrow>
             if isRetryable (lowerMessage err) \<and> attempts < maxRetries - 1 then
               (let attempts' = attempts + 1;
                    delay = 2 ^ attempts' * 1000 + rnd attempts' * 1000;
                    rest = retryLoop gen rnd mid attempts'
                in (fst rest, Call attempts False # Sleep delay # snd rest))
             else (Rejected err, [Call attempts False]))
      else (Rejected (ErrorObj (''Max retries exceeded for '' @ mid)), []))"
  by pat_completeness auto
termination
  by (relation "measure (\<lambda>(gen, rnd, mid, attempts). maxRetries - attempts)") auto

declare retryLoop.simps [simp del]

definition getForecastWithRetries ::
  "(nat \<Rightarrow> ForecastResult Outcome) \<Rightarrow> (nat \<Rightarrow> real) \<Rightarrow> string \<Rightarrow>
   ForecastResult Outcome \<times> Step list" where
  "getForecastWithRetries gen rnd mid = retryLoop gen rnd mid 0"

section \<open>The simulation loop (runBacktest)\<close>

record Configuration =
  llmSelections :: "(string \<times> string list) list"
  judgeModel :: string
  forecastPrompt :: string
  judgePrompt :: string
  feedbackLimit :: int
  maxPredictions :: int

text \<open>
  The calls a run makes, in the order the model makes them (within a tick the calls of a
  phase are in flight together, so only the order between phases and between ticks is
  that of the program): the tick index, the forecaster concerned, and for a call whether
  it fulfilled. The field \<open>calls\<close> of the state below is not a variable of the source: it
  keeps this record, so that what is and what is not invoked can be stated. The other
  fields are the four objects the loop mutates.
\<close>

datatype Event =
    ForecastCall nat string nat bool
  | ForecastSleep nat string real
  | JudgeCall nat string bool

record RunState =
  modelFeedbackHistory :: "(string \<times> string list) list"
  modelPerformanceHistory :: "(string \<times> Perf list) list"
  tickResults :: "BacktestTickResult list"
  persistentModelErrors :: "(string \<times> string) list"
  calls :: "Event list"

datatype Flow = Break RunState | Next RunState

text \<open>\<open>arr.slice(-limit)\<close>: the last \<open>limit\<close> elements; \<open>slice(-0)\<close> is the whole array.\<close>

definition sliceLast :: "int \<Rightarrow> 'a list \<Rightarrow> 'a list" where
  "sliceLast limit xs =
     (if limit > 0 then drop (length xs - nat limit) xs else drop (nat (- limit)) xs)"

text \<open>
  The history of a forecaster. Both history objects get an entry for every forecaster
  before the loop starts, and are read for forecasters only.
\<close>

definition historyOf :: "(string \<times> 'a list) list \<Rightarrow> string \<Rightarrow> 'a list" where
  "historyOf h mid = (case map_of h mid of None \<Rightarrow> [] | Some xs \<Rightarrow> xs)"

text \<open>\<open>s.replace(pat, rep)\<close> with a string pattern replaces its first occurrence.\<close>

fun replaceFirst :: "string \<Rightarrow> string \<Rightarrow> string \<Rightarrow> string" where
  "replaceFirst pat rep [] = (if pat = [] then rep else [])"
| "replaceFirst pat rep (c # cs) =
     (if startsWith (c # cs) pat then rep @ drop (length pat) (c # cs)
      else c # replaceFirst pat rep cs)"

text \<open>
  \<open>trim\<close>. A character of a string is a code unit below 256. Of the white space and the
  line terminators that \<open>String.prototype.trim\<close> strips, seven are such characters: the
  space, the tab, the line feed, the vertical tab, the form feed, the carriage return and
  the no-break space \<open>U+00A0\<close>; the others (\<open>U+FEFF\<close>, \<open>U+2028\<close>, \<open>U+2029\<close> and the space
  separators above \<open>U+00FF\<close>) cannot occur in a string of this type.
\<close>

definition isSpace :: "char \<Rightarrow> bool" where
  "isSpace c =
     (c \<in> {CHR '' '', CHR 0x09, CHR 0x0A, CHR 0x0B, CHR 0x0C, CHR 0x0D, CHR 0xA0})"

definition trim :: "string \<Rightarrow> string" where
  "trim s = rev (dropWhile isSpace (rev (dropWhile isSpace s)))"

datatype ForecastSettled =
    Skipped string
  | ForecastFulfilled string ForecastResult
  | ForecastRejected string Thrown

definition stepEvent :: "nat \<Rightarrow> string \<Rightarrow> Step \<Rightarrow> Event" where
  "stepEvent i mid s = (case s of Call k ok \<Rightarrow> ForecastCall i mid k ok | Sleep d \<Rightarrow> ForecastSleep i mid d)"

text \<open>One element of \<open>forecastPromises\<close>: what it settles to, and the calls it makes.\<close>

definition forecastPromise ::
  "Env \<Rightarrow> Configuration \<Rightarrow> nat \<Rightarrow> RunState \<Rightarrow> string \<Rightarrow> ForecastSettled \<times> Event list" where
  "forecastPromise env config i st mid =
     (if truthy (persistentModelErrors st) mid then (Skipped mid, [])
      else
        (let pastFeedback = sliceLast (feedbackLimit config) (historyOf (modelFeedbackHistory st) mid);
             r = getForecastWithRetries (forecaster env i mid pastFeedback) (random env i mid) mid
         in (case fst r of
               Fulfilled v \<Rightarrow> ForecastFulfilled mid v
             | Rejected why \<Rightarrow> ForecastRejected mid why,
             map (stepEvent i mid) (snd r))))"

text \<open>The body of the loop over \<open>forecastSettledResults\<close>.\<close>

definition settleForecast ::
  "ForecastSettled \<Rightarrow> (string \<times> ForecastResult) list \<times> (string \<times> string) list \<Rightarrow>
   (string \<times> ForecastResult) list \<times> (string \<times> string) list" where
  "settleForecast res acc =
     (case acc of (tickForecasts, errs) \<Rightarrow>
        (case res of
           ForecastFulfilled mid v \<Rightarrow> (AList.update mid v tickForecasts, errs)
         | ForecastRejected mid why \<Rightarrow>
             (let errorMessage = (case why of ErrorObj m \<Rightarrow> m
                                               | NonError _ \<Rightarrow> ''Unknown forecast error'')
              in if \<not> truthy errs mid then
                   (tickForecasts,
                    AList.update mid
                      (trim (replaceFirst (''['' @ propKey (snd (splitId mid)) @ '']'') [] errorMessage))
                      errs)
                 else (tickForecasts, errs))
         | Skipped mid \<Rightarrow> (tickForecasts, errs)))"

text \<open>
  The body of the loop over \<open>evaluationSettledResults\<close>. Every result is for a key of
  \<open>successfulForecasts\<close>, so that the \<open>find\<close> for the prediction succeeds.
\<close>

definition settleEvaluation ::
  "(string \<times> ForecastResult) list \<Rightarrow> real \<Rightarrow> string \<times> JudgeResult Outcome \<Rightarrow>
   (string \<times> JudgeResult) list \<times> RunState \<Rightarrow> (string \<times> JudgeResult) list \<times> RunState" where
  "settleEvaluation successfulForecasts actualValue res acc =
     (case acc of (tickEvaluations, st) \<Rightarrow>
        (case res of
           (mid, Fulfilled v) \<Rightarrow>
             (AList.update mid v tickEvaluations,
              st \<lparr> modelFeedbackHistory :=
                     AList.update mid (historyOf (modelFeedbackHistory st) mid @ [feedback v])
                       (modelFeedbackHistory st),
                   modelPerformanceHistory :=
                     AList.update mid
                       (historyOf (modelPerformanceHistory st) mid
                        @ [\<lparr> perfPrediction =
                               (case map_of successfulForecasts mid of
                                  None \<Rightarrow> 0 | Some f \<Rightarrow> prediction f),
                             perfActual = actualValue,
                             perfError = jError v \<rparr>])
                       (modelPerformanceHistory st) \<rparr>)
         | (mid, Rejected why) \<Rightarrow>
             (let errorMessage = (case why of ErrorObj m \<Rightarrow> m
                                               | NonError _ \<Rightarrow> ''Unknown evaluation error'')
              in if \<not> truthy (persistentModelErrors st) mid then
                   (tickEvaluations,
                    st \<lparr> persistentModelErrors :=
                           AList.update mid (''Evaluation failed: '' @ errorMessage)
                             (persistentModelErrors st) \<rparr>)
                 else (tickEvaluations, st))))"

text \<open>
  One element of \<open>evaluationPromises\<close>: the judge is called once. Before the call
  \<open>buildJudgePrompt\<close> renders every entry of \<open>pastPerformance\<close> with
  \<open>p.error.toFixed(2)\<close>, where \<open>p.error\<close> is the \<open>error\<close> of an earlier answer of the judge.
  That field is a number here (\<open>jError\<close>, \<open>perfError\<close>), so the rendering succeeds and the
  prompt is part of what the environment answers to. For an answer whose \<open>error\<close> is not a
  number the source throws a \<open>TypeError\<close> at this point of a later tick, outside every
  \<open>catch\<close>, and \<open>runBacktest\<close> rejects: such answers are not covered.
\<close>

definition evaluationPromise ::
  "Env \<Rightarrow> Configuration \<Rightarrow> nat \<Rightarrow> RunState \<Rightarrow> real \<Rightarrow> string \<times> ForecastResult \<Rightarrow>
   string \<times> JudgeResult Outcome" where
  "evaluationPromise env config i st actualValue e =
     (case e of (mid, forecast) \<Rightarrow>
        (let pastPerformance =
               sliceLast (feedbackLimit config) (historyOf (modelPerformanceHistory st) mid)
         in (mid, judge env i mid pastPerformance forecast actualValue)))"

definition judgeEvent :: "nat \<Rightarrow> string \<times> JudgeResult Outcome \<Rightarrow> Event" where
  "judgeEvent i r =
     JudgeCall i (fst r) (case snd r of Fulfilled _ \<Rightarrow> True | Rejected _ \<Rightarrow> False)"

text \<open>
  The forecast step of the loop body for the index \<open>i\<close>: every promise is created from
  the state the tick starts in, and the results are gone through in the order of
  \<open>forecasterModels\<close>. It gives \<open>tickForecasts\<close> and the state with the errors recorded.
\<close>

definition forecastStep ::
  "Env \<Rightarrow> Configuration \<Rightarrow> string list \<Rightarrow> nat \<Rightarrow> RunState \<Rightarrow>
   (string \<times> ForecastResult) list \<times> RunState" where
  "forecastStep env config forecasterModels i st =
     (let forecastSettledResults = map (forecastPromise env config i st) forecasterModels;
          st1 = st \<lparr> calls := calls st @ concat (map snd forecastSettledResults) \<rparr>;
          settled = fold settleForecast (map fst forecastSettledResults)
                      ([], persistentModelErrors st1)
      in (fst settled, st1 \<lparr> persistentModelErrors := snd settled \<rparr>))"

text \<open>
  The evaluation step, entered when the next tick has the value \<open>actualValue\<close>: one judge
  call for every entry of \<open>tickForecasts\<close>, then the results in that order, then the
  commit of the tick result when at least one evaluation succeeded.
\<close>

definition evaluationStep ::
  "Env \<Rightarrow> Configuration \<Rightarrow> nat \<Rightarrow> Tick \<Rightarrow> real \<Rightarrow> (string \<times> ForecastResult) list \<Rightarrow>
   RunState \<Rightarrow> RunState" where
  "evaluationStep env config i currentTick actualValue tickForecasts st2 =
     (let successfulForecasts = tickForecasts;
          evaluationSettledResults =
            map (evaluationPromise env config i st2 actualValue) successfulForecasts;
          st3 = st2 \<lparr> calls := calls st2 @ map (judgeEvent i) evaluationSettledResults \<rparr>;
          evaluated = fold (settleEvaluation successfulForecasts actualValue)
                        evaluationSettledResults ([], st3);
          tickEvaluations = fst evaluated;
          st4 = snd evaluated
      in if length tickEvaluations > 0
         then st4 \<lparr> tickResults := tickResults st4
                      @ [\<lparr> tickIndex = i, tickData = currentTick,
                           forecasts = tickForecasts,
                           evaluations = tickEvaluations \<rparr>] \<rparr>
         else st4)"

text \<open>
  The body of the loop over the ticks, for the index \<open>i\<close>: the guard on \<open>nextTick\<close>, the
  forecast step, the test of \<open>nextTick.primary.value\<close>, the evaluation step.
\<close>

definition tickStep ::
  "Env \<Rightarrow> Configuration \<Rightarrow> Tick list \<Rightarrow> string list \<Rightarrow> nat \<Rightarrow> RunState \<Rightarrow> Flow" where
  "tickStep env config ticks forecasterModels i st =
     (if length ticks \<le> i + 1 then Break st
      else
        (let currentTick = ticks ! i;
             nextTick = ticks ! (i + 1)
         in (case forecastStep env config forecasterModels i st of
               (tickForecasts, st2) \<Rightarrow>
                 (case pValue (primary nextTick) of
                    None \<Rightarrow> Break st2
                  | Some actualValue \<Rightarrow>
                      Next (evaluationStep env config i currentTick actualValue
                              tickForecasts st2)))))"

text \<open>The \<open>for\<close> loop: \<open>k\<close> iterations remain, the next one is for the index \<open>i\<close>.\<close>

fun tickLoop ::
  "Env \<Rightarrow> Configuration \<Rightarrow> Tick list \<Rightarrow> string list \<Rightarrow> nat \<Rightarrow> nat \<Rightarrow> RunState \<Rightarrow> RunState" where
  "tickLoop env config ticks forecasterModels 0 i st = st"
| "tickLoop env config ticks forecasterModels (Suc k) i st =
     (case tickStep env config ticks forecasterModels i st of
        Break st' \<Rightarrow> st'
      | Next st' \<Rightarrow> tickLoop env config ticks forecasterModels k (Suc i) st')"

definition forecasterModelsOf :: "Configuration \<Rightarrow> string list" where
  "forecasterModelsOf config =
     concat (map (\<lambda>(prov, models). map (\<lambda>model. prov @ ''::'' @ model) models)
                 (llmSelections config))"

definition initialState :: "string list \<Rightarrow> RunState" where
  "initialState forecasterModels =
     \<lparr> modelFeedbackHistory = fold (\<lambda>mid h. AList.update mid [] h) forecasterModels [],
       modelPerformanceHistory = fold (\<lambda>mid h. AList.update mid [] h) forecasterModels [],
       tickResults = [],
       persistentModelErrors = [],
       calls = [] \<rparr>"

definition maxTicksToProcess :: "Configuration \<Rightarrow> Tick list \<Rightarrow> nat" where
  "maxTicksToProcess config ticks = nat (min (int (length ticks) - 1) (maxPredictions config))"

text \<open>The state when the loop over the ticks has ended.\<close>

definition runLoop :: "Env \<Rightarrow> Configuration \<Rightarrow> Tick list \<Rightarrow> RunState" where
  "runLoop env config ticks =
     tickLoop env config ticks (forecasterModelsOf config) (maxTicksToProcess config ticks) 0
       (initialState (forecasterModelsOf config))"

definition formatErrors :: "(string \<times> string) list \<Rightarrow> (string \<times> string) list" where
  "formatErrors errs =
     fold (\<lambda>(mid, msg) formatted. AList.update (propKey (snd (splitId mid))) msg formatted) errs []"

definition runBacktest ::
  "Env \<Rightarrow> Configuration \<Rightarrow> Tick list \<Rightarrow> js_error + BacktestResults \<times> BacktestTickResult list" where
  "runBacktest env config ticks =
     (if judgeModel config = [] then
        Inl (Error ''A judge model must be selected to run a backtest.'')
      else if length (forecasterModelsOf config) = 0 then
        Inl (Error ''At least one forecaster model must be selected.'')
      else if length ticks < 2 then
        Inl (Error ''At least two data ticks are required to run a backtest.'')
      else
        (let st = runLoop env config ticks in
         case calculateAggregateScores ticks (tickResults st) (forecasterModelsOf config)
                (formatErrors (persistentModelErrors st)) of
           Inl e \<Rightarrow> Inl e
         | Inr results \<Rightarrow> Inr (results, tickResults st)))"

section \<open>What the extraction collects\<close>

text \<open>
  The following definitions are not in the source: they describe, as plain lists of samples
  \<open>(prediction, confidence, actualNext, actualPrev)\<close>, what the loops above collect, so that
  properties of the result can be stated.
\<close>

definition addSamples :: "Stats \<Rightarrow> (real \<times> real \<times> real \<times> real) list \<Rightarrow> Stats" where
  "addSamples s xs =
     \<lparr> sPredictions = sPredictions s @ map (\<lambda>(p, c, a, v). p) xs,
       confidences = confidences s @ map (\<lambda>(p, c, a, v). c) xs,
       actuals = actuals s @ map (\<lambda>(p, c, a, v). a) xs,
       prevActuals = prevActuals s @ map (\<lambda>(p, c, a, v). v) xs \<rparr>"

definition tickSamples ::
  "real \<Rightarrow> real \<Rightarrow> (string \<times> ForecastResult) list \<Rightarrow> string \<Rightarrow> (real \<times> real \<times> real \<times> real) list" where
  "tickSamples prevA curA fs m =
     map (\<lambda>e. (prediction (snd e), confidence (snd e), curA, prevA)) (filter (\<lambda>e. fst e = m) fs)"

definition actualAt :: "Tick list \<Rightarrow> nat \<Rightarrow> real option" where
  "actualAt ticks i = (if i < length ticks then pValue (primary (ticks ! i)) else None)"

definition positionSamples ::
  "Tick list \<Rightarrow> BacktestTickResult list \<Rightarrow> string \<Rightarrow> nat \<Rightarrow> (real \<times> real \<times> real \<times> real) list" where
  "positionSamples ticks trs m i =
     (case (actualAt ticks i, actualAt ticks (i + 1)) of
        (Some prevA, Some curA) \<Rightarrow> tickSamples prevA curA (forecasts (trs ! i)) m
      | _ \<Rightarrow> [])"

definition codeSeries ::
  "Tick list \<Rightarrow> BacktestTickResult list \<Rightarrow> string \<Rightarrow> (real \<times> real \<times> real \<times> real) list" where
  "codeSeries ticks trs m = concat (map (positionSamples ticks trs m) [0..<length trs])"

text \<open>
  The benchmarks the engine computes for a run: one for every configured model with at
  least one collected sample.
\<close>

definition benchmarked :: "Tick list \<Rightarrow> BacktestTickResult list \<Rightarrow> string list \<Rightarrow> ModelBenchmark list" where
  "benchmarked ticks trs models =
     (case extractSeries ticks trs models of
        Inl _ \<Rightarrow> []
      | Inr statsByModel \<Rightarrow> benchmarksOf ticks statsByModel models)"

section \<open>Concrete inputs\<close>

text \<open>Ticks, forecasts and tick results with only the fields the engine reads filled in.\<close>

definition mkTick :: "real option \<Rightarrow> Tick" where
  "mkTick v = \<lparr> date = [], country = [], indicator = [],
                primary = \<lparr> pTitle = [], pValue = v, pUnit = [] \<rparr>, peers = [] \<rparr>"

definition mkForecast :: "real \<Rightarrow> real \<Rightarrow> ForecastResult" where
  "mkForecast p c = \<lparr> prediction = p, fUnit = [], rationale = [], confidence = c \<rparr>"

definition mkJudge :: "real \<Rightarrow> JudgeResult" where
  "mkJudge e = \<lparr> accuracy = 1, jError = e, feedback = ''ok'' \<rparr>"

definition mkResult ::
  "nat \<Rightarrow> real option \<Rightarrow> (string \<times> ForecastResult) list \<Rightarrow> (string \<times> JudgeResult) list \<Rightarrow>
   BacktestTickResult" where
  "mkResult i v fs es = \<lparr> tickIndex = i, tickData = mkTick v, forecasts = fs, evaluations = es \<rparr>"

text \<open>
  Six ticks with the values 1 to 6, and one forecaster that was right, with full
  confidence, on the first four of the five steps.
\<close>

definition ticks6 :: "Tick list" where
  "ticks6 = [mkTick (Some 1), mkTick (Some 2), mkTick (Some 3), mkTick (Some 4),
             mkTick (Some 5), mkTick (Some 6)]"

definition results4 :: "BacktestTickResult list" where
  "results4 =
     [mkResult 0 (Some 1) [(''P::m'', mkForecast 2 1)] [(''P::m'', mkJudge 0)],
      mkResult 1 (Some 2) [(''P::m'', mkForecast 3 1)] [(''P::m'', mkJudge 0)],
      mkResult 2 (Some 3) [(''P::m'', mkForecast 4 1)] [(''P::m'', mkJudge 0)],
      mkResult 3 (Some 4) [(''P::m'', mkForecast 5 1)] [(''P::m'', mkJudge 0)]]"

definition bench4 :: ModelBenchmark where
  "bench4 = \<lparr> modelId = ''P::m'', modelName = Some ''m'', provider = ''P'',
              completionRate = 80, directionalAccuracy = 100, rmse = 0, brierScore = 0,
              avgConfidence = 100, compositeScore = 100, predictions = 4 \<rparr>"

definition results4_summary :: BacktestResults where
  "results4_summary =
     \<lparr> overallCompositeScore = 100, overallDirectionalAccuracy = 100,
       overallMagnitudeRmse = 0, overallAvgConfidence = 100,
       topPerformers = [bench4], excludedModels = [] \<rparr>"

text \<open>The same run with a tick result for the first step only.\<close>

definition results1 :: "BacktestTickResult list" where
  "results1 = [mkResult 0 (Some 1) [(''P::m'', mkForecast 2 1)] [(''P::m'', mkJudge 0)]]"

definition bench1 :: ModelBenchmark where
  "bench1 = \<lparr> modelId = ''P::m'', modelName = Some ''m'', provider = ''P'',
              completionRate = 20, directionalAccuracy = 100, rmse = 0, brierScore = 0,
              avgConfidence = 100, compositeScore = 70, predictions = 1 \<rparr>"

definition results1_summary :: BacktestResults where
  "results1_summary =
     \<lparr> overallCompositeScore = 0, overallDirectionalAccuracy = 0,
       overallMagnitudeRmse = 0, overallAvgConfidence = 0,
       topPerformers = [],
       excludedModels =
         [\<lparr> xModelId = ''P::m'', xModelName = Some ''m'', xProvider = ''P'',
            reason = InsufficientCoverage, message = None, xPredictions = 1, totalTicks = 5,
            spread = Some bench1 \<rparr>] \<rparr>"

text \<open>
  The range the engine normalises every model's RMSE by: it is computed once, over the
  \<open>actuals\<close> of all configured models.
\<close>

definition runRange :: "Tick list \<Rightarrow> BacktestTickResult list \<Rightarrow> string list \<Rightarrow> real option" where
  "runRange ticks trs models =
     (case extractSeries ticks trs models of
        Inl _ \<Rightarrow> None
      | Inr statsByModel \<Rightarrow> actualsRange (concat (map (\<lambda>e. actuals (snd e)) statsByModel)))"

section \<open>The extraction as the specification words it\<close>

text \<open>
  The specification's wording of the extraction, for comparison with the source: the
  previous actual value of a tick result is read from its own tick data and the next
  actual value from the tick at \<open>tickIndex + 1\<close>; a tick result for which either is
  missing contributes nothing.
\<close>

definition specSamples ::
  "Tick list \<Rightarrow> BacktestTickResult \<Rightarrow> string \<Rightarrow> (real \<times> real \<times> real \<times> real) list" where
  "specSamples ticks r m =
     (case (pValue (primary (tickData r)), actualAt ticks (tickIndex r + 1)) of
        (Some prevA, Some curA) \<Rightarrow> tickSamples prevA curA (forecasts r) m
      | _ \<Rightarrow> [])"

definition specSeries ::
  "Tick list \<Rightarrow> BacktestTickResult list \<Rightarrow> string \<Rightarrow> (real \<times> real \<times> real \<times> real) list" where
  "specSeries ticks trs m = concat (map (\<lambda>r. specSamples ticks r m) trs)"

text \<open>
  The specification's wording of the completion rate when skipped tick results count
  neither as predictions nor in the denominator.
\<close>

definition specSkipped :: "Tick list \<Rightarrow> BacktestTickResult list \<Rightarrow> nat" where
  "specSkipped ticks trs =
     length (filter (\<lambda>r. pValue (primary (tickData r)) = None
                          \<or> actualAt ticks (tickIndex r + 1) = None) trs)"

definition specCompletionRate :: "Tick list \<Rightarrow> BacktestTickResult list \<Rightarrow> string \<Rightarrow> real" where
  "specCompletionRate ticks trs m =
     real (length (specSeries ticks trs m))
       / (real (length ticks) - 1 - real (specSkipped ticks trs)) * 100"

text \<open>
  Three ticks with the values 100, 110 and 105, and a single tick result, for the tick
  index 1: the forecaster failed on tick 0 with an \<open>Error\<close> whose message is empty, and
  forecast 108 for the last tick.
\<close>

definition ticks3 :: "Tick list" where
  "ticks3 = [mkTick (Some 100), mkTick (Some 110), mkTick (Some 105)]"

definition resultsLate :: "BacktestTickResult list" where
  "resultsLate = [mkResult 1 (Some 110) [(''P::m'', mkForecast 108 0.6)] [(''P::m'', mkJudge 3)]]"

definition config1 :: Configuration where
  "config1 = \<lparr> llmSelections = [(''P'', [''m''])], judgeModel = ''P::j'', forecastPrompt = [],
               judgePrompt = [], feedbackLimit = 3, maxPredictions = 10 \<rparr>"

definition envLate :: Env where
  "envLate =
     \<lparr> forecaster = (\<lambda>i mid fb k. if i = 0 then Rejected (ErrorObj [])
                                   else Fulfilled (mkForecast 108 0.6)),
       judge = (\<lambda>i mid pp f a. Fulfilled (mkJudge 3)),
       random = (\<lambda>i mid k. 0) \<rparr>"

text \<open>
  Three ticks of which the first has no value, and a forecaster that forecasts 108 with
  confidence 0.6 every time and is evaluated every time.
\<close>

definition ticksNull :: "Tick list" where
  "ticksNull = [mkTick None, mkTick (Some 110), mkTick (Some 105)]"

definition envSteady :: Env where
  "envSteady =
     \<lparr> forecaster = (\<lambda>i mid fb k. Fulfilled (mkForecast 108 0.6)),
       judge = (\<lambda>i mid pp f a. Fulfilled (mkJudge 3)),
       random = (\<lambda>i mid k. 0) \<rparr>"

definition resultsNull :: "BacktestTickResult list" where
  "resultsNull =
     [mkResult 0 None [(''P::m'', mkForecast 108 0.6)] [(''P::m'', mkJudge 3)],
      mkResult 1 (Some 110) [(''P::m'', mkForecast 108 0.6)] [(''P::m'', mkJudge 3)]]"

definition benchNull :: ModelBenchmark where
  "benchNull = \<lparr> modelId = ''P::m'', modelName = Some ''m'', provider = ''P'',
              completionRate = 50, directionalAccuracy = 100, rmse = 3, brierScore = 0.16,
              avgConfidence = 60, compositeScore = 60.4, predictions = 1 \<rparr>"

definition resultsNull_summary :: BacktestResults where
  "resultsNull_summary =
     \<lparr> overallCompositeScore = 0, overallDirectionalAccuracy = 0,
       overallMagnitudeRmse = 0, overallAvgConfidence = 0,
       topPerformers = [],
       excludedModels =
         [\<lparr> xModelId = ''P::m'', xModelName = Some ''m'', xProvider = ''P'',
            reason = InsufficientCoverage, message = None, xPredictions = 1, totalTicks = 2,
            spread = Some benchNull \<rparr>] \<rparr>"

section \<open>Describing the calls of a run\<close>

text \<open>
  The following definitions are not in the source: they name what the wrapper and the loop
  do, so that properties of a run can be stated. \<open>retryTrace gen rnd n\<close> is what a wrapper
  that makes \<open>n\<close> calls does: each of the first \<open>n - 1\<close> calls fails and is followed by a
  sleep of \<open>2 ^ a\<close> seconds plus the jitter, where \<open>a\<close> is the number of the retry.
\<close>

definition isFulfilled :: "'a Outcome \<Rightarrow> bool" where
  "isFulfilled r = (case r of Fulfilled _ \<Rightarrow> True | Rejected _ \<Rightarrow> False)"

definition retryTrace :: "(nat \<Rightarrow> ForecastResult Outcome) \<Rightarrow> (nat \<Rightarrow> real) \<Rightarrow> nat \<Rightarrow> Step list" where
  "retryTrace gen rnd n =
     concat (map (\<lambda>k. [Call k False, Sleep (2 ^ (k + 1) * 1000 + rnd (k + 1) * 1000)]) [0..<n - 1])
     @ [Call (n - 1) (isFulfilled (gen (n - 1)))]"


fun eventTick :: "Event \<Rightarrow> nat" where
  "eventTick (ForecastCall i mid k ok) = i"
| "eventTick (ForecastSleep i mid d) = i"
| "eventTick (JudgeCall i mid ok) = i"

fun eventModel :: "Event \<Rightarrow> string" where
  "eventModel (ForecastCall i mid k ok) = mid"
| "eventModel (ForecastSleep i mid d) = mid"
| "eventModel (JudgeCall i mid ok) = mid"

fun isJudgeCall :: "nat \<Rightarrow> string \<Rightarrow> Event \<Rightarrow> bool" where
  "isJudgeCall i m (JudgeCall j mid ok) = (j = i \<and> mid = m)"
| "isJudgeCall i m (ForecastCall j mid k ok) = False"
| "isJudgeCall i m (ForecastSleep j mid d) = False"

fun flowState :: "Flow \<Rightarrow> RunState" where
  "flowState (Break st) = st"
| "flowState (Next st) = st"

text \<open>The loop goes on after the tick \<open>j\<close>: there is a next tick and it has a value.\<close>

definition continues :: "Tick list \<Rightarrow> nat \<Rightarrow> bool" where
  "continues ticks j = (j + 1 < length ticks \<and> pValue (primary (ticks ! (j + 1))) \<noteq> None)"

fun settledModel :: "ForecastSettled \<Rightarrow> string" where
  "settledModel (Skipped m) = m"
| "settledModel (ForecastFulfilled m v) = m"
| "settledModel (ForecastRejected m e) = m"

text \<open>
  What holds of the state before the iteration for the index \<open>n\<close>: every call so far is
  for an earlier tick and no forecaster call has a number beyond 2; a forecaster whose
  evaluation failed has a truthy entry in \<open>persistentModelErrors\<close> and no call for a later
  tick; the judge was called at most once for a forecaster and a tick; every tick result
  is for an earlier tick.
\<close>

definition runInv :: "nat \<Rightarrow> RunState \<Rightarrow> bool" where
  "runInv n st =
     ((\<forall>e \<in> set (calls st).
         eventTick e < n \<and> (\<forall>j mid k ok. e = ForecastCall j mid k ok \<longrightarrow> k < 3))
      \<and> (\<forall>i m. JudgeCall i m False \<in> set (calls st) \<longrightarrow>
            truthy (persistentModelErrors st) m
            \<and> (\<forall>e \<in> set (calls st). eventModel e = m \<longrightarrow> eventTick e \<le> i))
      \<and> (\<forall>i m. length (filter (isJudgeCall i m) (calls st)) \<le> 1)
      \<and> (\<forall>r \<in> set (tickResults st). tickIndex r < n))"

text \<open>
  A forecaster that is rate-limited on its first two calls for tick 0 and then answers,
  and a judge that fails on tick 0.
\<close>

definition envRetry :: Env where
  "envRetry =
     \<lparr> forecaster = (\<lambda>i mid fb k. if i = 0 \<and> k < 2 then Rejected (ErrorObj ''Rate limit hit'')
                                   else Fulfilled (mkForecast 108 0.6)),
       judge = (\<lambda>i mid pp f a. if i = 0 then Rejected (ErrorObj ''bad'')
                                 else Fulfilled (mkJudge 3)),
       random = (\<lambda>i mid k. 0.5) \<rparr>"

text \<open>Five ticks of which the fourth has no value.\<close>

definition ticks5 :: "Tick list" where
  "ticks5 = [mkTick (Some 1), mkTick (Some 2), mkTick (Some 3), mkTick None, mkTick (Some 5)]"

text \<open>
  Two forecasters that forecast 108 with confidence 0.6 every time, and a judge that fails
  on every forecast of the first of them.
\<close>

definition config2 :: Configuration where
  "config2 = \<lparr> llmSelections = [(''P'', [''a'', ''b''])], judgeModel = ''P::j'',
               forecastPrompt = [], judgePrompt = [], feedbackLimit = 3, maxPredictions = 10 \<rparr>"

definition envJudgeFails :: Env where
  "envJudgeFails =
     \<lparr> forecaster = (\<lambda>i mid fb k. Fulfilled (mkForecast 108 0.6)),
       judge = (\<lambda>i mid pp f a. if mid = ''P::a'' then Rejected (ErrorObj ''bad'')
                                 else Fulfilled (mkJudge 3)),
       random = (\<lambda>i mid k. 0) \<rparr>"

definition resultsJudgeFails :: "BacktestTickResult list" where
  "resultsJudgeFails =
     [mkResult 0 (Some 100) [(''P::a'', mkForecast 108 0.6), (''P::b'', mkForecast 108 0.6)]
        [(''P::b'', mkJudge 3)],
      mkResult 1 (Some 110) [(''P::b'', mkForecast 108 0.6)] [(''P::b'', mkJudge 3)]]"

text \<open>
  A forecaster whose first failure is an \<open>Error\<close> with an empty message and whose second
  failure has the message \<open>boom\<close>; and a forecaster whose key is refused on every call.
\<close>

definition envAllFail :: Env where
  "envAllFail =
     \<lparr> forecaster = (\<lambda>i mid fb k. Rejected (ErrorObj ''Invalid API Key'')),
       judge = (\<lambda>i mid pp f a. Fulfilled (mkJudge 3)),
       random = (\<lambda>i mid k. 0) \<rparr>"

definition allFail_report :: BacktestResults where
  "allFail_report =
     \<lparr> overallCompositeScore = 0, overallDirectionalAccuracy = 0,
       overallMagnitudeRmse = 0, overallAvgConfidence = 0,
       topPerformers = [],
       excludedModels =
         [\<lparr> xModelId = ''P::m'', xModelName = Some ''m'', xProvider = ''P'',
            reason = Failed, message = Some ''Invalid API Key'', xPredictions = 0,
            totalTicks = 2, spread = None \<rparr>] \<rparr>"



text \<open>
  The message the loop records for a forecaster whose forecast was rejected with \<open>why\<close>:
  the text \<open>[modelName]\<close> is removed once and the rest is trimmed.
\<close>

definition recordedMessage :: "string \<Rightarrow> Thrown \<Rightarrow> string" where
  "recordedMessage mid why =
     trim (replaceFirst (''['' @ propKey (snd (splitId mid)) @ '']'') []
             (case why of ErrorObj m \<Rightarrow> m | NonError _ \<Rightarrow> ''Unknown forecast error''))"

text \<open>
  Every forecast failure of the environment has a message that is still not empty once
  \<open>[modelName]\<close> is removed and the rest trimmed.
\<close>

definition nonEmptyFailures :: "Env \<Rightarrow> bool" where
  "nonEmptyFailures env =
     (\<forall>i m fb k why. forecaster env i m fb k = Rejected why \<longrightarrow> recordedMessage m why \<noteq> [])"

text \<open>Every tick result sits at the position of its tick index and carries that tick.\<close>

definition ownTicks :: "Tick list \<Rightarrow> BacktestTickResult list \<Rightarrow> bool" where
  "ownTicks ticks trs = (\<forall>k<length trs. tickIndex (trs ! k) = k \<and> tickData (trs ! k) = ticks ! k)"

text \<open>
  Before the iteration for the index \<open>n\<close>: the tick results are at their positions, and
  either every earlier tick was committed or every forecaster has a truthy error entry.
\<close>

definition posInv :: "Tick list \<Rightarrow> string list \<Rightarrow> nat \<Rightarrow> RunState \<Rightarrow> bool" where
  "posInv ticks models n st =
     (ownTicks ticks (tickResults st)
      \<and> length (tickResults st) \<le> n
      \<and> (length (tickResults st) = n
          \<or> (\<forall>m \<in> set models. truthy (persistentModelErrors st) m)))"

section \<open>Properties of the extraction\<close>

lemma addSamples_Nil: "addSamples s [] = s"
  by (simp add: addSamples_def)

lemma addSamples_append: "addSamples (addSamples s xs) ys = addSamples s (xs @ ys)"
  by (simp add: addSamples_def)

lemma map_of_pushSample:
  "map_of (pushSample p c e st) m =
     (case map_of st m of
        None \<Rightarrow> None
      | Some s \<Rightarrow> Some (addSamples s (tickSamples p c [e] m)))"
  by (cases e) (auto simp: pushSample_def tickSamples_def addSamples_def update_conv'
        split: option.splits)

lemma map_of_fold_pushSample:
  "map_of (fold (pushSample p c) fs st) m =
     (case map_of st m of
        None \<Rightarrow> None
      | Some s \<Rightarrow> Some (addSamples s (tickSamples p c fs m)))"
proof (induction fs arbitrary: st)
  case Nil
  then show ?case by (simp add: tickSamples_def addSamples_Nil split: option.splits)
next
  case (Cons e fs)
  show ?case
    apply (simp add: Cons.IH map_of_pushSample split: option.splits)
    apply (simp add: addSamples_append tickSamples_def)
    done
qed

lemma map_of_fold_init:
  "map_of (fold (\<lambda>mid st. AList.update mid noStats st) models acc) m =
     (if m \<in> set models then Some noStats else map_of acc m)"
  by (induction models arbitrary: acc) (auto simp: update_conv')

lemma map_of_initStats:
  "map_of (initStats models) m = (if m \<in> set models then Some noStats else None)"
  by (simp add: initStats_def map_of_fold_init)

lemma extractStep_Inl: "extractStep ticks trs i (Inl e) = Inl e"
  by (simp add: extractStep_def)

lemma fold_extractStep_Inl: "fold (extractStep ticks trs) is (Inl e) = Inl e"
  by (induction "is") (simp_all add: extractStep_Inl)

lemma extractStep_ok:
  assumes "i < length ticks"
  shows "\<exists>st'. extractStep ticks trs i (Inr st) = Inr st' \<and>
           (\<forall>m. map_of st' m =
              (case map_of st m of
                 None \<Rightarrow> None
               | Some s \<Rightarrow> Some (addSamples s (positionSamples ticks trs m i))))"
  using assms
  by (auto simp: extractStep_def positionSamples_def actualAt_def map_of_fold_pushSample
        addSamples_Nil split: option.splits)

lemma extract_prefix:
  assumes "n \<le> length ticks"
  shows "\<exists>st. fold (extractStep ticks trs) [0..<n] (Inr (initStats models)) = Inr st \<and>
           (\<forall>m. map_of st m =
              (if m \<in> set models
               then Some (addSamples noStats (concat (map (positionSamples ticks trs m) [0..<n])))
               else None))"
  using assms
proof (induction n)
  case 0
  then show ?case by (simp add: map_of_initStats addSamples_Nil)
next
  case (Suc n)
  then obtain st where st: "fold (extractStep ticks trs) [0..<n] (Inr (initStats models)) = Inr st"
    and m: "\<And>m. map_of st m =
              (if m \<in> set models
               then Some (addSamples noStats (concat (map (positionSamples ticks trs m) [0..<n])))
               else None)"
    by auto
  from Suc.prems have "n < length ticks" by simp
  from extractStep_ok [OF this, of trs st] obtain st' where
    st': "extractStep ticks trs n (Inr st) = Inr st'"
    and m': "\<And>m. map_of st' m =
              (case map_of st m of
                 None \<Rightarrow> None
               | Some s \<Rightarrow> Some (addSamples s (positionSamples ticks trs m n)))"
    by auto
  show ?case
    by (simp add: st st' m' m addSamples_append)
qed

lemma extractSeries_ok:
  assumes "length trs \<le> length ticks"
  shows "\<exists>st. extractSeries ticks trs models = Inr st \<and>
           (\<forall>m. map_of st m =
              (if m \<in> set models then Some (addSamples noStats (codeSeries ticks trs m))
               else None))"
  using extract_prefix [OF assms, of trs models]
  by (auto simp: extractSeries_def codeSeries_def)

lemma extractSeries_throws:
  assumes "length ticks < length trs"
  shows "extractSeries ticks trs models = Inl TypeError"
proof -
  obtain st where st: "fold (extractStep ticks trs) [0..<length ticks] (Inr (initStats models)) = Inr st"
    using extract_prefix [of "length ticks" ticks trs models] by auto
  have up: "[0..<length trs] = [0..<length ticks] @ length ticks # [Suc (length ticks)..<length trs]"
  proof -
    have "[0..<length ticks + (length trs - length ticks)]
            = [0..<length ticks] @ [length ticks..<length ticks + (length trs - length ticks)]"
      by (rule upt_add_eq_append) simp
    then show ?thesis using assms by (simp add: upt_conv_Cons)
  qed
  have "extractStep ticks trs (length ticks) (Inr st) = Inl TypeError"
    by (simp add: extractStep_def)
  then show ?thesis
    by (simp add: extractSeries_def up st fold_extractStep_Inl)
qed

section \<open>Properties of the benchmarks\<close>

lemma length_addSamples [simp]:
  "length (sPredictions (addSamples noStats S)) = length S"
  "length (confidences (addSamples noStats S)) = length S"
  "length (actuals (addSamples noStats S)) = length S"
  "length (prevActuals (addSamples noStats S)) = length S"
  by (simp_all add: addSamples_def noStats_def)

lemma benchmarkOf_Some:
  assumes "benchmarkOf r t m s = Some b"
  shows "modelId b = m" and "predictions b = length (sPredictions s)"
    and "completionRate b = real (length (sPredictions s)) / real_of_int t * 100"
    and "0 < length (sPredictions s)"
  using assms
  by (auto simp: benchmarkOf_def Let_def split: if_splits prod.splits)

lemma benchmarkOf_None: "benchmarkOf r t m s = None \<longleftrightarrow> sPredictions s = []"
  by (auto simp: benchmarkOf_def Let_def split: if_splits prod.splits)

lemma positionSamples_nonempty:
  assumes "positionSamples ticks trs m i \<noteq> []"
  shows "i + 1 < length ticks"
  using assms
  by (auto simp: positionSamples_def actualAt_def split: option.splits if_splits)

lemma codeSeries_nonempty:
  assumes "codeSeries ticks trs m \<noteq> []"
  shows "2 \<le> length ticks"
proof -
  from assms obtain i where "positionSamples ticks trs m i \<noteq> []"
    by (auto simp: codeSeries_def)
  from positionSamples_nonempty [OF this] show ?thesis by simp
qed

lemma in_map_filter: "b \<in> set (List.map_filter f xs) \<longleftrightarrow> (\<exists>x \<in> set xs. f x = Some b)"
  by (force simp: List.map_filter_def)

lemma benchmarked_iff:
  "b \<in> set (benchmarked ticks trs models) \<longleftrightarrow>
     length trs \<le> length ticks \<and>
     (\<exists>m \<in> set models. \<exists>st.
        extractSeries ticks trs models = Inr st \<and>
        benchmarkOf (actualsRange (concat (map (\<lambda>e. actuals (snd e)) st)))
          (int (length ticks) - 1) m (addSamples noStats (codeSeries ticks trs m)) = Some b)"
proof (cases "length trs \<le> length ticks")
  case True
  from extractSeries_ok [OF True, of models] obtain st where
    st: "extractSeries ticks trs models = Inr st"
    and m: "\<And>m. map_of st m =
              (if m \<in> set models then Some (addSamples noStats (codeSeries ticks trs m)) else None)"
    by auto
  show ?thesis
    using True by (auto simp: benchmarked_def st benchmarksOf_def in_map_filter m)
next
  case False
  then have "extractSeries ticks trs models = Inl TypeError"
    by (simp add: extractSeries_throws)
  with False show ?thesis by (simp add: benchmarked_def)
qed

lemma benchmarked_facts:
  assumes "b \<in> set (benchmarked ticks trs models)"
  shows "modelId b \<in> set models"
    and "predictions b = length (codeSeries ticks trs (modelId b))"
    and "0 < predictions b"
    and "2 \<le> length ticks"
    and "completionRate b = real (predictions b) / (real (length ticks) - 1) * 100"
proof -
  from assms obtain m and st :: "(string \<times> Stats) list" where m: "m \<in> set models"
    and b: "benchmarkOf (actualsRange (concat (map (\<lambda>e. actuals (snd e)) st)))
          (int (length ticks) - 1) m (addSamples noStats (codeSeries ticks trs m)) = Some b"
    unfolding benchmarked_iff by blast
  note f = benchmarkOf_Some [OF b]
  from f(1) m show "modelId b \<in> set models" by simp
  from f(1,2) show p: "predictions b = length (codeSeries ticks trs (modelId b))" by simp
  from f(2,4) show pos: "0 < predictions b" by simp
  from p pos have "codeSeries ticks trs (modelId b) \<noteq> []" by auto
  then show two: "2 \<le> length ticks" by (rule codeSeries_nonempty)
  from two have "real_of_int (int (length ticks) - 1) = real (length ticks) - 1" by simp
  with f(2,3) show "completionRate b = real (predictions b) / (real (length ticks) - 1) * 100"
    by simp
qed

lemma benchmarked_same_id:
  assumes "b \<in> set (benchmarked ticks trs models)" and "b' \<in> set (benchmarked ticks trs models)"
    and "modelId b = modelId b'"
  shows "b = b'"
proof -
  from assms(1) obtain m and st :: "(string \<times> Stats) list" where
    st: "extractSeries ticks trs models = Inr st"
    and b: "benchmarkOf (actualsRange (concat (map (\<lambda>e. actuals (snd e)) st)))
          (int (length ticks) - 1) m (addSamples noStats (codeSeries ticks trs m)) = Some b"
    unfolding benchmarked_iff by blast
  from assms(2) obtain m' and st' :: "(string \<times> Stats) list" where
    st': "extractSeries ticks trs models = Inr st'" and
    b': "benchmarkOf (actualsRange (concat (map (\<lambda>e. actuals (snd e)) st')))
          (int (length ticks) - 1) m' (addSamples noStats (codeSeries ticks trs m')) = Some b'"
    unfolding benchmarked_iff by blast
  from st st' have [simp]: "st' = st" by simp
  from benchmarkOf_Some(1) [OF b] benchmarkOf_Some(1) [OF b'] assms(3) have "m = m'" by simp
  with b b' show ?thesis by simp
qed

lemma sort_key_Nil_iff: "sort_key f xs = [] \<longleftrightarrow> xs = []"
  by (metis length_0_conv length_sort)

lemma topPerformers_summarise: "set (topPerformers (summarise tops ex)) = set tops"
  by (cases "tops = []") (simp_all add: summarise_def Let_def emptyResults_def sort_key_Nil_iff)

lemma excludedModels_summarise: "excludedModels (summarise tops ex) = ex"
  by (simp add: summarise_def Let_def emptyResults_def)

lemma calc_nonempty:
  assumes "calculateAggregateScores ticks trs models errors = Inr res" and "trs \<noteq> []"
  shows "res = summarise (filterTop (benchmarked ticks trs models))
                 (filterExcluded ticks errors models (benchmarked ticks trs models))"
  using assms
  by (auto simp: calculateAggregateScores_def benchmarked_def Let_def split: sum.splits)

lemma benchmarked_Nil: "benchmarked ticks [] models = []"
proof -
  have "codeSeries ticks [] m = []" for m by (simp add: codeSeries_def)
  have "b \<notin> set (benchmarked ticks [] models)" for b
    using benchmarked_facts(2,3) [of b ticks "[]" models] by (auto simp: codeSeries_def)
  then show ?thesis by (cases "benchmarked ticks [] models") auto
qed

lemma calc_empty:
  "calculateAggregateScores ticks [] models errors =
     Inr (emptyResults \<lparr> excludedModels := map (noResultsEntry ticks errors) models \<rparr>)"
  by (simp add: calculateAggregateScores_def)

lemma calc_returns:
  "(\<exists>res. calculateAggregateScores ticks trs models errors = Inr res) \<longleftrightarrow> length trs \<le> length ticks"
proof (cases "length trs \<le> length ticks")
  case True
  from extractSeries_ok [OF True, of models] obtain st where
    "extractSeries ticks trs models = Inr st" by auto
  with True show ?thesis by (simp add: calculateAggregateScores_def Let_def)
next
  case False
  then have "extractSeries ticks trs models = Inl TypeError" "trs \<noteq> []"
    by (auto simp: extractSeries_throws)
  with False show ?thesis by (simp add: calculateAggregateScores_def)
qed

lemma noResultsEntry_fields:
  "xModelId (noResultsEntry ticks errors m) = m"
  "reason (noResultsEntry ticks errors m) = Failed"
  "xPredictions (noResultsEntry ticks errors m) = 0"
  "totalTicks (noResultsEntry ticks errors m) = int (length ticks) - 1"
  by (simp_all add: noResultsEntry_def split: prod.splits)

lemma failedEntry_fields:
  "xModelId (failedEntry t errors m) = m"
  "reason (failedEntry t errors m) = Failed"
  "xPredictions (failedEntry t errors m) = 0"
  by (simp_all add: failedEntry_def split: prod.splits)

lemma insufficientEntry_fields:
  "xModelId (insufficientEntry t b) = modelId b"
  "reason (insufficientEntry t b) = InsufficientCoverage"
  "xPredictions (insufficientEntry t b) = predictions b"
  "spread (insufficientEntry t b) = Some b"
  by (simp_all add: insufficientEntry_def)

section \<open>Evaluating the concrete inputs\<close>

lemmas example_defs = mkTick_def mkForecast_def mkJudge_def mkResult_def

lemma splitId_Pm: "splitId ''P::m'' = (''P'', Some ''m'')"
  by (simp add: splitId_def)

lemma upt4: "[0..<4] = [0, 1, 2, 3]"
  by (simp add: upt_rec)

lemma series4:
  "extractSeries ticks6 results4 [''P::m''] =
     Inr [(''P::m'', \<lparr> sPredictions = [2, 3, 4, 5], confidences = [1, 1, 1, 1],
                        actuals = [2, 3, 4, 5], prevActuals = [1, 2, 3, 4] \<rparr>)]"
  by (simp add: extractSeries_def extractStep_def initStats_def example_defs ticks6_def
        results4_def pushSample_def noStats_def upt4)

lemma benchmarked4: "benchmarked ticks6 results4 [''P::m''] = [bench4]"
proof -
  have "benchmarksOf ticks6
          [(''P::m'', \<lparr> sPredictions = [2, 3, 4, 5], confidences = [1, 1, 1, 1],
                         actuals = [2, 3, 4, 5], prevActuals = [1, 2, 3, 4] \<rparr>)] [''P::m'']
        = [bench4]"
    by (simp add: benchmarksOf_def List.map_filter_def actualsRange_def benchmarkOf_def upt4
          sampleStep_def outcome_def normRmseOf_def splitId_Pm bench4_def ticks6_def)
  then show ?thesis by (simp add: benchmarked_def series4)
qed

lemma calc4: "calculateAggregateScores ticks6 results4 [''P::m''] [] = Inr results4_summary"
proof -
  have "benchmarksOf ticks6
          [(''P::m'', \<lparr> sPredictions = [2, 3, 4, 5], confidences = [1, 1, 1, 1],
                         actuals = [2, 3, 4, 5], prevActuals = [1, 2, 3, 4] \<rparr>)] [''P::m'']
        = [bench4]"
    using benchmarked4 by (simp add: benchmarked_def series4)
  moreover have "results4 \<noteq> []" by (simp add: results4_def)
  moreover have "summarise (filterTop [bench4]) (filterExcluded ticks6 [] [''P::m''] [bench4])
                  = results4_summary"
    by (simp add: summarise_def filterTop_def filterExcluded_def PARTICIPATION_THRESHOLD_def
          bench4_def avg_def results4_summary_def)
  ultimately show ?thesis
    by (simp add: calculateAggregateScores_def series4)
qed

lemma series1:
  "extractSeries ticks6 results1 [''P::m''] =
     Inr [(''P::m'', \<lparr> sPredictions = [2], confidences = [1],
                        actuals = [2], prevActuals = [1] \<rparr>)]"
  by (simp add: extractSeries_def extractStep_def initStats_def example_defs ticks6_def
        results1_def pushSample_def noStats_def)

lemma benchmarksOf1:
  "benchmarksOf ticks6
          [(''P::m'', \<lparr> sPredictions = [2], confidences = [1],
                         actuals = [2], prevActuals = [1] \<rparr>)] [''P::m'']
        = [bench1]"
  by (simp add: benchmarksOf_def List.map_filter_def actualsRange_def benchmarkOf_def
          sampleStep_def outcome_def normRmseOf_def splitId_Pm bench1_def ticks6_def)

lemma calc1: "calculateAggregateScores ticks6 results1 [''P::m''] [] = Inr results1_summary"
proof -
  have "results1 \<noteq> []" by (simp add: results1_def)
  moreover have "summarise (filterTop [bench1]) (filterExcluded ticks6 [] [''P::m''] [bench1])
                  = results1_summary"
    by (simp add: summarise_def filterTop_def filterExcluded_def PARTICIPATION_THRESHOLD_def
          bench1_def results1_summary_def emptyResults_def insufficientEntry_def ticks6_def)
  ultimately show ?thesis
    by (simp add: calculateAggregateScores_def series1 benchmarksOf1)
qed

section \<open>The participation threshold\<close>

text \<open>
  Claim C5. A benchmarked model is listed in \<open>excludedModels\<close> with the reason
  'Insufficient Coverage' exactly when its completion rate is strictly below the
  participation threshold, which is 80; it is in \<open>topPerformers\<close> exactly when it is not
  below it, so that a model whose completion rate is exactly 80 is a top performer.
\<close>

theorem coverage_threshold:
  assumes "calculateAggregateScores ticks trs models errors = Inr res"
    and "b \<in> set (benchmarked ticks trs models)"
  shows "((\<exists>x \<in> set (excludedModels res).
             xModelId x = modelId b \<and> reason x = InsufficientCoverage)
           \<longleftrightarrow> completionRate b < PARTICIPATION_THRESHOLD)
       \<and> (b \<in> set (topPerformers res) \<longleftrightarrow> \<not> completionRate b < PARTICIPATION_THRESHOLD)
       \<and> (completionRate b = 80 \<longrightarrow> b \<in> set (topPerformers res))
       \<and> PARTICIPATION_THRESHOLD = 80"
proof -
  from assms(2) have ne: "trs \<noteq> []" using benchmarked_Nil by auto
  note res = calc_nonempty [OF assms(1) ne]
  have top: "b \<in> set (topPerformers res) \<longleftrightarrow> \<not> completionRate b < PARTICIPATION_THRESHOLD"
    using assms(2) by (simp add: res topPerformers_summarise filterTop_def)
  have ex: "(\<exists>x \<in> set (excludedModels res).
             xModelId x = modelId b \<and> reason x = InsufficientCoverage)
           \<longleftrightarrow> completionRate b < PARTICIPATION_THRESHOLD"
  proof
    assume "\<exists>x \<in> set (excludedModels res). xModelId x = modelId b \<and> reason x = InsufficientCoverage"
    then obtain x where x: "x \<in> set (excludedModels res)" "xModelId x = modelId b"
      "reason x = InsufficientCoverage" by auto
    from x(1,3) obtain b' where b': "b' \<in> set (benchmarked ticks trs models)"
      "completionRate b' < PARTICIPATION_THRESHOLD" "x = insufficientEntry (int (length ticks) - 1) b'"
      by (auto simp: res excludedModels_summarise filterExcluded_def Let_def failedEntry_fields)
    from b'(3) x(2) have "modelId b' = modelId b" by (simp add: insufficientEntry_fields)
    with benchmarked_same_id [OF b'(1) assms(2)] have "b' = b" by simp
    with b'(2) show "completionRate b < PARTICIPATION_THRESHOLD" by simp
  next
    assume "completionRate b < PARTICIPATION_THRESHOLD"
    with assms(2) have "insufficientEntry (int (length ticks) - 1) b \<in> set (excludedModels res)"
      by (simp add: res excludedModels_summarise filterExcluded_def Let_def)
    then show "\<exists>x \<in> set (excludedModels res). xModelId x = modelId b \<and> reason x = InsufficientCoverage"
      by (auto simp: insufficientEntry_fields intro!: bexI [of _ "insufficientEntry (int (length ticks) - 1) b"])
  qed
  from top have "completionRate b = 80 \<longrightarrow> b \<in> set (topPerformers res)"
    by (simp add: PARTICIPATION_THRESHOLD_def)
  with top ex show ?thesis by (simp add: PARTICIPATION_THRESHOLD_def)
qed

text \<open>
  Four samples out of five possible ticks give a completion rate of exactly 80, and the
  model is a top performer and not excluded.
\<close>

theorem coverage_threshold_witness:
  "calculateAggregateScores ticks6 results4 [''P::m''] [] = Inr results4_summary
   \<and> bench4 \<in> set (benchmarked ticks6 results4 [''P::m''])
   \<and> completionRate bench4 = 80
   \<and> bench4 \<in> set (topPerformers results4_summary)
   \<and> \<not> (\<exists>x \<in> set (excludedModels results4_summary).
           xModelId x = modelId bench4 \<and> reason x = InsufficientCoverage)"
proof -
  have b: "bench4 \<in> set (benchmarked ticks6 results4 [''P::m''])"
    by (simp add: benchmarked4)
  have r: "completionRate bench4 = 80" by (simp add: bench4_def)
  from coverage_threshold [OF calc4 b] r calc4 b show ?thesis
    by (simp add: PARTICIPATION_THRESHOLD_def)
qed

section \<open>The completion rate\<close>

text \<open>
  Claim C6. For every model in \<open>topPerformers\<close>, and for every model in
  \<open>excludedModels\<close> with the reason 'Insufficient Coverage' (whose entry carries the
  properties of its benchmark), the completion rate is exactly
  \<open>predictions / (ticks.length - 1) * 100\<close>, where \<open>predictions\<close> is the number of samples
  collected for that model and the denominator, the number of possible ticks of the run,
  is at least 1.
\<close>

theorem completion_rate_exact:
  assumes "calculateAggregateScores ticks trs models errors = Inr res"
  shows "(\<forall>b \<in> set (topPerformers res).
            completionRate b = real (predictions b) / (real (length ticks) - 1) * 100
            \<and> predictions b = length (codeSeries ticks trs (modelId b))
            \<and> 1 \<le> real (length ticks) - 1)
       \<and> (\<forall>x \<in> set (excludedModels res). reason x = InsufficientCoverage \<longrightarrow>
            (\<exists>b. spread x = Some b \<and> xModelId x = modelId b \<and> xPredictions x = predictions b
               \<and> totalTicks x = int (length ticks) - 1
               \<and> completionRate b = real (predictions b) / (real (length ticks) - 1) * 100
               \<and> predictions b = length (codeSeries ticks trs (modelId b))
               \<and> 1 \<le> real (length ticks) - 1))"
proof (cases "trs = []")
  case True
  with assms have "res = emptyResults \<lparr> excludedModels := map (noResultsEntry ticks errors) models \<rparr>"
    by (simp add: calc_empty)
  then show ?thesis
    by (auto simp: emptyResults_def noResultsEntry_fields)
next
  case False
  note res = calc_nonempty [OF assms False]
  have ok: "completionRate b = real (predictions b) / (real (length ticks) - 1) * 100
            \<and> predictions b = length (codeSeries ticks trs (modelId b))
            \<and> 1 \<le> real (length ticks) - 1"
    if "b \<in> set (benchmarked ticks trs models)" for b
    using benchmarked_facts(2,4,5) [OF that] by simp
  have top: "b \<in> set (benchmarked ticks trs models)" if "b \<in> set (topPerformers res)" for b
    using that by (simp add: res topPerformers_summarise filterTop_def)
  have ex: "\<exists>b. b \<in> set (benchmarked ticks trs models) \<and> x = insufficientEntry (int (length ticks) - 1) b"
    if "x \<in> set (excludedModels res)" "reason x = InsufficientCoverage" for x
    using that
    by (auto simp: res excludedModels_summarise filterExcluded_def Let_def failedEntry_fields)
  have A: "\<forall>b \<in> set (topPerformers res).
            completionRate b = real (predictions b) / (real (length ticks) - 1) * 100
            \<and> predictions b = length (codeSeries ticks trs (modelId b))
            \<and> 1 \<le> real (length ticks) - 1"
    using ok top by blast
  have B: "\<forall>x \<in> set (excludedModels res). reason x = InsufficientCoverage \<longrightarrow>
            (\<exists>b. spread x = Some b \<and> xModelId x = modelId b \<and> xPredictions x = predictions b
               \<and> totalTicks x = int (length ticks) - 1
               \<and> completionRate b = real (predictions b) / (real (length ticks) - 1) * 100
               \<and> predictions b = length (codeSeries ticks trs (modelId b))
               \<and> 1 \<le> real (length ticks) - 1)"
  proof (intro ballI impI)
    fix x assume "x \<in> set (excludedModels res)" "reason x = InsufficientCoverage"
    from ex [OF this] obtain b where b: "b \<in> set (benchmarked ticks trs models)"
      "x = insufficientEntry (int (length ticks) - 1) b" by auto
    from ok [OF b(1)] b(2)
    show "\<exists>b. spread x = Some b \<and> xModelId x = modelId b \<and> xPredictions x = predictions b
               \<and> totalTicks x = int (length ticks) - 1
               \<and> completionRate b = real (predictions b) / (real (length ticks) - 1) * 100
               \<and> predictions b = length (codeSeries ticks trs (modelId b))
               \<and> 1 \<le> real (length ticks) - 1"
      by (simp add: insufficientEntry_def)
  qed
  from A B show ?thesis by (rule conjI)
qed

text \<open>
  With six ticks and one collected sample, the model is excluded for insufficient coverage
  with a completion rate of \<open>1 / 5 * 100 = 20\<close>.
\<close>

theorem completion_rate_exact_witness:
  "calculateAggregateScores ticks6 results1 [''P::m''] [] = Inr results1_summary
   \<and> map reason (excludedModels results1_summary) = [InsufficientCoverage]
   \<and> map spread (excludedModels results1_summary) = [Some bench1]
   \<and> completionRate bench1 = 1 / 5 * 100
   \<and> length (codeSeries ticks6 results1 (modelId bench1)) = 1
   \<and> calculateAggregateScores ticks6 results4 [''P::m''] [] = Inr results4_summary
   \<and> topPerformers results4_summary = [bench4]
   \<and> completionRate bench4 = 4 / 5 * 100
   \<and> length (codeSeries ticks6 results4 (modelId bench4)) = 4"
  using completion_rate_exact [OF calc1] completion_rate_exact [OF calc4] calc1 calc4
  by (auto simp: results1_summary_def bench1_def results4_summary_def bench4_def ticks6_def)

section \<open>Bounds of the metrics\<close>

lemma outcome_cases: "outcome p a v = 0 \<or> outcome p a v = 1"
  by (simp add: outcome_def Let_def)

lemma brier_term_le_1:
  assumes "0 \<le> c" and "c \<le> 1" and "oc = 0 \<or> oc = 1"
  shows "(c - oc)\<^sup>2 \<le> (1::real)"
proof -
  from assms have "\<bar>c - oc\<bar> \<le> 1" by auto
  then show ?thesis by (simp add: abs_square_le_1)
qed

lemma fold_sampleStep_bounds:
  assumes "\<forall>i<k. 0 \<le> confidences s ! i \<and> confidences s ! i \<le> 1"
  shows "case fold (sampleStep s) [0..<k] (0, 0, 0) of
           (cd, se, bs) \<Rightarrow> cd \<le> k \<and> 0 \<le> se \<and> 0 \<le> bs \<and> bs \<le> real k"
  using assms
proof (induction k)
  case 0
  then show ?case by simp
next
  case (Suc k)
  obtain cd se bs where f: "fold (sampleStep s) [0..<k] (0, 0, 0) = (cd, se, bs)"
    by (cases "fold (sampleStep s) [0..<k] (0, 0, 0)") auto
  from Suc.IH Suc.prems f have ih: "cd \<le> k" "0 \<le> se" "0 \<le> bs" "bs \<le> real k" by auto
  from Suc.prems have c: "0 \<le> confidences s ! k" "confidences s ! k \<le> 1" by auto
  let ?oc = "outcome (sPredictions s ! k) (actuals s ! k) (prevActuals s ! k)"
  have b1: "(confidences s ! k - ?oc)\<^sup>2 \<le> 1"
    by (rule brier_term_le_1 [OF c outcome_cases])
  have b0: "0 \<le> (confidences s ! k - ?oc)\<^sup>2" by simp
  have s0: "0 \<le> (actuals s ! k - sPredictions s ! k)\<^sup>2" by simp
  have step: "fold (sampleStep s) [0..<Suc k] (0, 0, 0) = sampleStep s k (cd, se, bs)"
    by (simp add: f)
  from ih b1 b0 s0 show ?case
    unfolding step by (simp add: sampleStep_def Let_def)
qed

lemma benchmarkOf_bounds:
  assumes "benchmarkOf r t m s = Some b"
    and "\<forall>i<length (sPredictions s). 0 \<le> confidences s ! i \<and> confidences s ! i \<le> 1"
  shows "0 \<le> directionalAccuracy b" and "directionalAccuracy b \<le> 100"
    and "0 \<le> brierScore b" and "brierScore b \<le> 1"
proof -
  let ?n = "length (sPredictions s)"
  obtain cd se bs where f: "fold (sampleStep s) [0..<?n] (0, 0, 0) = (cd, se, bs)"
    by (cases "fold (sampleStep s) [0..<?n] (0, 0, 0)") auto
  from fold_sampleStep_bounds [OF assms(2)] f
  have bd: "cd \<le> ?n" "0 \<le> bs" "bs \<le> real ?n" by auto
  from assms(1) have n: "0 < ?n" by (auto simp: benchmarkOf_def Let_def split: if_splits)
  from assms(1) n f have d: "directionalAccuracy b = real cd / real ?n * 100"
    and br: "brierScore b = bs / real ?n"
    by (auto simp: benchmarkOf_def Let_def split: prod.splits)
  show "0 \<le> directionalAccuracy b" by (simp add: d)
  from bd(1) n show "directionalAccuracy b \<le> 100" by (simp add: d divide_le_eq)
  from bd(2) show "0 \<le> brierScore b" by (simp add: br)
  from bd(3) n show "brierScore b \<le> 1" by (simp add: br)
qed

lemma benchmarkOf_composite:
  assumes "benchmarkOf r t m s = Some b"
  shows "compositeScore b =
           100 * (0.4 * (directionalAccuracy b / 100) + 0.3 * normRmseOf r (rmse b)
                  + 0.2 * (avgConfidence b / 100) + 0.1 * (1 - brierScore b))"
  using assms
  by (auto simp: benchmarkOf_def Let_def split: if_splits prod.splits)

lemma tickSamples_conf:
  assumes "\<forall>e \<in> set fs. P (confidence (snd e))"
    and "x \<in> set (tickSamples p c fs m)"
  shows "P (fst (snd x))"
  using assms by (auto simp: tickSamples_def)

lemma codeSeries_conf:
  assumes "\<forall>r \<in> set trs. \<forall>e \<in> set (forecasts r). P (confidence (snd e))"
    and "x \<in> set (codeSeries ticks trs m)"
  shows "P (fst (snd x))"
proof -
  from assms(2) obtain i where i: "i < length trs" "x \<in> set (positionSamples ticks trs m i)"
    by (auto simp: codeSeries_def)
  from i(2) obtain p c where "x \<in> set (tickSamples p c (forecasts (trs ! i)) m)"
    by (auto simp: positionSamples_def split: option.splits)
  moreover from i(1) assms(1) have "\<forall>e \<in> set (forecasts (trs ! i)). P (confidence (snd e))"
    using nth_mem by blast
  ultimately show ?thesis by (rule tickSamples_conf [rotated])
qed

lemma confidences_addSamples:
  "confidences (addSamples noStats S) = map (\<lambda>x. fst (snd x)) S"
  by (simp add: addSamples_def noStats_def split_def)

text \<open>
  Claim C4. For every benchmarked model (a configured model with at least one collected
  sample), if the confidence of every forecast in the tick results lies in \<open>[0, 1]\<close>, then
  the directional accuracy lies in \<open>[0, 100]\<close>, the Brier score lies in \<open>[0, 1]\<close>, and the
  composite score is 100 times the combination of the normalised directional accuracy,
  the normalised RMSE, the normalised confidence and one minus the Brier score with the
  weights 0.4, 0.3, 0.2 and 0.1, which sum to 1.
\<close>

theorem metric_bounds_and_composite:
  assumes "b \<in> set (benchmarked ticks trs models)"
    and "\<forall>r \<in> set trs. \<forall>e \<in> set (forecasts r).
           0 \<le> confidence (snd e) \<and> confidence (snd e) \<le> 1"
  shows "0 < predictions b
       \<and> 0 \<le> directionalAccuracy b \<and> directionalAccuracy b \<le> 100
       \<and> 0 \<le> brierScore b \<and> brierScore b \<le> 1
       \<and> compositeScore b =
           100 * (0.4 * (directionalAccuracy b / 100)
                  + 0.3 * normRmseOf (runRange ticks trs models) (rmse b)
                  + 0.2 * (avgConfidence b / 100)
                  + 0.1 * (1 - brierScore b))
       \<and> (0.4 + 0.3 + 0.2 + 0.1 = (1::real))"
proof -
  from assms(1) obtain m and st :: "(string \<times> Stats) list" where
    st: "extractSeries ticks trs models = Inr st"
    and b: "benchmarkOf (actualsRange (concat (map (\<lambda>e. actuals (snd e)) st)))
          (int (length ticks) - 1) m (addSamples noStats (codeSeries ticks trs m)) = Some b"
    unfolding benchmarked_iff by blast
  have rr: "runRange ticks trs models = actualsRange (concat (map (\<lambda>e. actuals (snd e)) st))"
    by (simp add: runRange_def st)
  have conf: "\<forall>i<length (sPredictions (addSamples noStats (codeSeries ticks trs m))).
                0 \<le> confidences (addSamples noStats (codeSeries ticks trs m)) ! i
                \<and> confidences (addSamples noStats (codeSeries ticks trs m)) ! i \<le> 1"
  proof (intro allI impI)
    fix i assume "i < length (sPredictions (addSamples noStats (codeSeries ticks trs m)))"
    then have i: "i < length (codeSeries ticks trs m)" by simp
    then have "codeSeries ticks trs m ! i \<in> set (codeSeries ticks trs m)" by simp
    from codeSeries_conf [where P = "\<lambda>c. 0 \<le> c \<and> c \<le> 1", OF assms(2) this] i
    show "0 \<le> confidences (addSamples noStats (codeSeries ticks trs m)) ! i
            \<and> confidences (addSamples noStats (codeSeries ticks trs m)) ! i \<le> 1"
      by (simp add: confidences_addSamples)
  qed
  note bounds = benchmarkOf_bounds [OF b conf]
  note comp = benchmarkOf_composite [OF b]
  from benchmarked_facts(3) [OF assms(1)] bounds comp show ?thesis
    by (simp add: rr)
qed

theorem metric_bounds_and_composite_witness:
  "bench4 \<in> set (benchmarked ticks6 results4 [''P::m''])
   \<and> directionalAccuracy bench4 = 100 \<and> brierScore bench4 = 0
   \<and> directionalAccuracy bench4 \<le> 100 \<and> brierScore bench4 \<le> 1
   \<and> compositeScore bench4 =
        100 * (0.4 * (directionalAccuracy bench4 / 100)
               + 0.3 * normRmseOf (runRange ticks6 results4 [''P::m'']) (rmse bench4)
               + 0.2 * (avgConfidence bench4 / 100)
               + 0.1 * (1 - brierScore bench4))"
proof -
  have b: "bench4 \<in> set (benchmarked ticks6 results4 [''P::m''])"
    by (simp add: benchmarked4)
  have c: "\<forall>r \<in> set results4. \<forall>e \<in> set (forecasts r).
             0 \<le> confidence (snd e) \<and> confidence (snd e) \<le> 1"
    by (simp add: results4_def example_defs)
  from metric_bounds_and_composite [OF b c] b show ?thesis
    by (simp add: bench4_def)
qed

section \<open>Which ticks the extraction reads\<close>

lemma run_late: "tickResults (runLoop envLate config1 ticks3) = resultsLate"
  by code_simp

lemma run_null: "tickResults (runLoop envSteady config1 ticksNull) = resultsNull"
  by code_simp

lemma specSeries_nth:
  "specSeries ticks trs m = concat (map (\<lambda>i. specSamples ticks (trs ! i) m) [0..<length trs])"
proof -
  have "map (\<lambda>r. specSamples ticks r m) trs
          = map (\<lambda>i. specSamples ticks (trs ! i) m) [0..<length trs]"
    by (rule nth_equalityI) simp_all
  then show ?thesis by (simp add: specSeries_def)
qed

lemma codeSeries_eq_specSeries:
  assumes "length trs \<le> length ticks"
    and "\<forall>i<length trs. tickIndex (trs ! i) = i \<and> tickData (trs ! i) = ticks ! i"
  shows "codeSeries ticks trs m = specSeries ticks trs m"
proof -
  have "positionSamples ticks trs m i = specSamples ticks (trs ! i) m" if "i < length trs" for i
    using that assms by (simp add: positionSamples_def specSamples_def actualAt_def)
  then have "map (positionSamples ticks trs m) [0..<length trs]
               = map (\<lambda>i. specSamples ticks (trs ! i) m) [0..<length trs]"
    by simp
  then show ?thesis unfolding codeSeries_def specSeries_nth by (rule arg_cong)
qed

lemma series_late:
  "extractSeries ticks3 resultsLate [''P::m''] =
     Inr [(''P::m'', \<lparr> sPredictions = [108], confidences = [0.6],
                        actuals = [110], prevActuals = [100] \<rparr>)]"
  by (simp add: extractSeries_def extractStep_def initStats_def example_defs ticks3_def
        resultsLate_def pushSample_def noStats_def)

lemma spec_series_late: "specSeries ticks3 resultsLate ''P::m'' = [(108, 0.6, 105, 110)]"
  by (simp add: specSeries_def specSamples_def actualAt_def tickSamples_def example_defs
        ticks3_def resultsLate_def)

lemma upt2: "[0..<2] = [0, 1]"
  by (simp add: upt_rec)

lemma series_null:
  "extractSeries ticksNull resultsNull [''P::m''] =
     Inr [(''P::m'', \<lparr> sPredictions = [108], confidences = [0.6],
                        actuals = [105], prevActuals = [110] \<rparr>)]"
  by (simp add: extractSeries_def extractStep_def initStats_def example_defs ticksNull_def
        resultsNull_def pushSample_def noStats_def upt2)

lemma sqrt_9: "sqrt 9 = 3"
  by (rule real_sqrt_unique) simp_all

lemma benchmarked_null: "benchmarked ticksNull resultsNull [''P::m''] = [benchNull]"
proof -
  have "benchmarksOf ticksNull
          [(''P::m'', \<lparr> sPredictions = [108], confidences = [0.6],
                        actuals = [105], prevActuals = [110] \<rparr>)] [''P::m'']
        = [benchNull]"
    by (simp add: benchmarksOf_def List.map_filter_def actualsRange_def benchmarkOf_def
          sampleStep_def outcome_def normRmseOf_def splitId_Pm benchNull_def ticksNull_def
          sqrt_9 power2_eq_square)
  then show ?thesis by (simp add: benchmarked_def series_null)
qed

lemma spec_rate_null: "specCompletionRate ticksNull resultsNull ''P::m'' = 100"
  by (simp add: specCompletionRate_def specSkipped_def specSeries_def specSamples_def
        actualAt_def tickSamples_def example_defs ticksNull_def resultsNull_def)


lemma calc_null:
  "calculateAggregateScores ticksNull resultsNull [''P::m''] [] = Inr resultsNull_summary"
proof -
  have "resultsNull \<noteq> []" by (simp add: resultsNull_def)
  moreover have "summarise (filterTop [benchNull]) (filterExcluded ticksNull [] [''P::m''] [benchNull])
                  = resultsNull_summary"
    by (simp add: summarise_def filterTop_def filterExcluded_def PARTICIPATION_THRESHOLD_def
          benchNull_def resultsNull_summary_def emptyResults_def insufficientEntry_def ticksNull_def)
  moreover have "benchmarksOf ticksNull
          [(''P::m'', \<lparr> sPredictions = [108], confidences = [0.6],
                        actuals = [105], prevActuals = [110] \<rparr>)] [''P::m''] = [benchNull]"
    using benchmarked_null by (simp add: benchmarked_def series_null)
  ultimately show ?thesis
    by (simp add: calculateAggregateScores_def series_null)
qed

text \<open>
  Claim C1, as amended. The extraction reads \<open>ticks[i]\<close> and \<open>ticks[i + 1]\<close> for the
  tick result at position \<open>i\<close> of the list. For a list in which every tick result sits at
  the position of its tick index and carries that tick as its data, this is the tick
  result's own tick and the tick at \<open>tickIndex + 1\<close>: the series collected for every
  configured model is the one the specification describes, a tick result with a missing
  previous or next actual value adds no sample to any series, and the completion rate of
  every benchmarked model is its number of samples over \<open>ticks.length - 1\<close>, a
  denominator in which the skipped ticks are still counted.
\<close>

theorem extraction_reads_own_tick:
  assumes "length trs \<le> length ticks"
    and "\<forall>i<length trs. tickIndex (trs ! i) = i \<and> tickData (trs ! i) = ticks ! i"
  shows "\<exists>st. extractSeries ticks trs models = Inr st
          \<and> (\<forall>m \<in> set models.
                map_of st m = Some (addSamples noStats (specSeries ticks trs m)))
          \<and> (\<forall>b \<in> set (benchmarked ticks trs models).
                predictions b = length (specSeries ticks trs (modelId b))
                \<and> completionRate b
                    = real (length (specSeries ticks trs (modelId b)))
                        / (real (length ticks) - 1) * 100)"
proof -
  from extractSeries_ok [OF assms(1), of models] obtain st where
    st: "extractSeries ticks trs models = Inr st"
    and m: "\<And>m. map_of st m =
              (if m \<in> set models then Some (addSamples noStats (codeSeries ticks trs m)) else None)"
    by auto
  note eq = codeSeries_eq_specSeries [OF assms]
  have A: "\<forall>m \<in> set models. map_of st m = Some (addSamples noStats (specSeries ticks trs m))"
    by (simp add: m eq)
  have B: "\<forall>b \<in> set (benchmarked ticks trs models).
                predictions b = length (specSeries ticks trs (modelId b))
                \<and> completionRate b
                    = real (length (specSeries ticks trs (modelId b)))
                        / (real (length ticks) - 1) * 100"
  proof
    fix b assume b: "b \<in> set (benchmarked ticks trs models)"
    from benchmarked_facts(2,5) [OF b]
    show "predictions b = length (specSeries ticks trs (modelId b))
                \<and> completionRate b
                    = real (length (specSeries ticks trs (modelId b)))
                        / (real (length ticks) - 1) * 100"
      by (simp add: eq)
  qed
  from st A B show ?thesis by blast
qed

text \<open>
  A run over three ticks of which the first has no value: the tick result of tick 0 is
  skipped, the one of tick 1 gives the only sample, and the completion rate is
  \<open>1 / 2 * 100\<close>.
\<close>

theorem extraction_reads_own_tick_witness:
  "length resultsNull \<le> length ticksNull
   \<and> map tickIndex resultsNull = [0, 1]
   \<and> map tickData resultsNull = [ticksNull ! 0, ticksNull ! 1]
   \<and> benchNull \<in> set (benchmarked ticksNull resultsNull [''P::m''])
   \<and> specSeries ticksNull resultsNull ''P::m'' = [(108, 0.6, 105, 110)]
   \<and> predictions benchNull = 1
   \<and> completionRate benchNull = 1 / (3 - 1) * 100"
proof -
  have len: "length resultsNull \<le> length ticksNull"
    by (simp add: resultsNull_def ticksNull_def)
  have pos: "\<forall>i<length resultsNull.
               tickIndex (resultsNull ! i) = i \<and> tickData (resultsNull ! i) = ticksNull ! i"
    by (simp add: resultsNull_def ticksNull_def example_defs less_Suc_eq nth_Cons' all_conj_distrib)
  have b: "benchNull \<in> set (benchmarked ticksNull resultsNull [''P::m''])"
    by (simp add: benchmarked_null)
  have s: "specSeries ticksNull resultsNull ''P::m'' = [(108, 0.6, 105, 110)]"
    by (simp add: specSeries_def specSamples_def actualAt_def tickSamples_def example_defs
          ticksNull_def resultsNull_def)
  from extraction_reads_own_tick [OF len pos, of "[''P::m'']"] b s len show ?thesis
    by (auto simp: resultsNull_def ticksNull_def example_defs benchNull_def)
qed

text \<open>
  The claim as stated fails in two ways. The run \<open>envLate\<close> commits a single tick result,
  for the tick index 1, which the engine scores against the ticks 0 and 1 (previous value
  100, next value 110) where the claim reads its own tick and the tick after it (110 and
  105). In the run \<open>envSteady\<close> over \<open>ticksNull\<close> the tick result of tick 0 is skipped, yet
  the completion rate is \<open>1 / 2 * 100 = 50\<close>: the skipped tick is counted in the
  denominator, where the claim's wording gives \<open>1 / (2 - 1) * 100 = 100\<close>.
\<close>

theorem extraction_reads_own_tick_counterexample:
  "tickResults (runLoop envLate config1 ticks3) = resultsLate
   \<and> map tickIndex resultsLate = [1]
   \<and> extractSeries ticks3 resultsLate [''P::m''] =
        Inr [(''P::m'', \<lparr> sPredictions = [108], confidences = [0.6],
                           actuals = [110], prevActuals = [100] \<rparr>)]
   \<and> specSeries ticks3 resultsLate ''P::m'' = [(108, 0.6, 105, 110)]
   \<and> tickResults (runLoop envSteady config1 ticksNull) = resultsNull
   \<and> calculateAggregateScores ticksNull resultsNull [''P::m''] [] = Inr resultsNull_summary
   \<and> map (map_option completionRate) (map spread (excludedModels resultsNull_summary)) = [Some 50]
   \<and> specCompletionRate ticksNull resultsNull ''P::m'' = 100"
  using run_late series_late spec_series_late run_null calc_null spec_rate_null
  by (simp add: resultsLate_def example_defs resultsNull_summary_def benchNull_def)

section \<open>The retry wrapper\<close>

lemma retryLoop_2:
  "retryLoop gen rnd mid 2 =
     (case gen 2 of
        Fulfilled v \<Rightarrow> (Fulfilled v, [Call 2 True])
      | Rejected err \<Rightarrow> (Rejected err, [Call 2 False]))"
  by (subst retryLoop.simps) (simp add: maxRetries_def split: Outcome.splits)

lemma retryLoop_1:
  "retryLoop gen rnd mid (Suc 0) =
     (case gen (Suc 0) of
        Fulfilled v \<Rightarrow> (Fulfilled v, [Call (Suc 0) True])
      | Rejected err \<Rightarrow>
          if isRetryable (lowerMessage err)
          then (fst (retryLoop gen rnd mid 2),
                Call (Suc 0) False # Sleep (2 ^ 2 * 1000 + rnd 2 * 1000)
                  # snd (retryLoop gen rnd mid 2))
          else (Rejected err, [Call (Suc 0) False]))"
  by (subst retryLoop.simps)
     (simp add: maxRetries_def Let_def numeral_2_eq_2 [symmetric] split: Outcome.splits)

lemma retryLoop_0:
  "retryLoop gen rnd mid 0 =
     (case gen 0 of
        Fulfilled v \<Rightarrow> (Fulfilled v, [Call 0 True])
      | Rejected err \<Rightarrow>
          if isRetryable (lowerMessage err)
          then (fst (retryLoop gen rnd mid (Suc 0)),
                Call 0 False # Sleep (2 ^ 1 * 1000 + rnd (Suc 0) * 1000)
                  # snd (retryLoop gen rnd mid (Suc 0)))
          else (Rejected err, [Call 0 False]))"
  by (subst retryLoop.simps) (simp add: maxRetries_def Let_def split: Outcome.splits)

lemma upt_3: "[0..<2] = [0, 1]" "[0..<1] = [0]"
  by (simp_all add: upt_rec)

lemma retry_shape:
  "\<exists>n. 1 \<le> n \<and> n \<le> 3
       \<and> getForecastWithRetries gen rnd mid = (gen (n - 1), retryTrace gen rnd n)
       \<and> (\<forall>k<n - 1. \<exists>err. gen k = Rejected err \<and> isRetryable (lowerMessage err))
       \<and> (\<forall>err. gen (n - 1) = Rejected err \<longrightarrow> \<not> isRetryable (lowerMessage err) \<or> n = 3)"
proof (cases "gen 0")
  case (Fulfilled v)
  then show ?thesis
    by (intro exI [of _ 1]) (simp add: getForecastWithRetries_def retryLoop_0 retryTrace_def isFulfilled_def)
next
  case r0: (Rejected e0)
  show ?thesis
  proof (cases "isRetryable (lowerMessage e0)")
    case False
    with r0 show ?thesis
      by (intro exI [of _ 1]) (simp add: getForecastWithRetries_def retryLoop_0 retryTrace_def isFulfilled_def)
  next
    case t0: True
    show ?thesis
    proof (cases "gen 1")
      case (Fulfilled v)
      with r0 t0 show ?thesis
        by (intro exI [of _ 2])
           (simp add: getForecastWithRetries_def retryLoop_0 retryLoop_1 retryTrace_def isFulfilled_def)
    next
      case r1: (Rejected e1)
      show ?thesis
      proof (cases "isRetryable (lowerMessage e1)")
        case False
        with r0 t0 r1 show ?thesis
          by (intro exI [of _ 2])
             (simp add: getForecastWithRetries_def retryLoop_0 retryLoop_1 retryTrace_def isFulfilled_def)
      next
        case t1: True
        have "k = 0 \<or> k = 1" if "k < 2" for k :: nat using that by auto
        with r0 t0 r1 t1 show ?thesis
          by (intro exI [of _ 3])
             (auto simp: getForecastWithRetries_def retryLoop_0 retryLoop_1 retryLoop_2
                retryTrace_def isFulfilled_def upt_3 numeral_2_eq_2 [symmetric]
                split: Outcome.splits)
      qed
    qed
  qed
qed

lemma retryTrace_calls:
  assumes "Call k ok \<in> set (retryTrace gen rnd n)" and "1 \<le> n"
  shows "k < n"
  using assms by (auto simp: retryTrace_def)

lemma retryTrace_sleeps:
  assumes "Sleep d \<in> set (retryTrace gen rnd n)"
  shows "\<exists>a. 1 \<le> a \<and> a < n \<and> d = 2 ^ a * 1000 + rnd a * 1000"
proof -
  from assms obtain k where k: "k < n - 1" "d = 2 ^ (k + 1) * 1000 + rnd (k + 1) * 1000"
    by (auto simp: retryTrace_def)
  then have "1 \<le> k + 1 \<and> k + 1 < n \<and> d = 2 ^ (k + 1) * 1000 + rnd (k + 1) * 1000"
    by auto
  then show ?thesis by blast
qed

section \<open>One forecast step\<close>

lemma truthy_update_other:
  "k \<noteq> m \<Longrightarrow> truthy (AList.update k v errs) m = truthy errs m"
  by (simp add: truthy_def update_conv')

lemma truthy_update_same: "truthy (AList.update m v errs) m = (v \<noteq> [])"
  by (simp add: truthy_def update_conv')

lemma forecastPromise_skipped:
  "truthy (persistentModelErrors st) m \<Longrightarrow> forecastPromise env config i st m = (Skipped m, [])"
  by (simp add: forecastPromise_def)

lemma stepEvent_tick_model:
  "eventTick (stepEvent i m s) = i" "eventModel (stepEvent i m s) = m"
  by (cases s; simp add: stepEvent_def)+

lemma forecastPromise_events:
  assumes "e \<in> set (snd (forecastPromise env config i st m))"
  shows "eventTick e = i" and "eventModel e = m" and "\<not> truthy (persistentModelErrors st) m"
    and "\<And>j mid ok. e \<noteq> JudgeCall j mid ok"
    and "\<And>j mid k ok. e = ForecastCall j mid k ok \<Longrightarrow> k < 3"
proof -
  show nt: "\<not> truthy (persistentModelErrors st) m"
    using assms by (auto simp: forecastPromise_def)
  let ?gen = "forecaster env i m (sliceLast (feedbackLimit config) (historyOf (modelFeedbackHistory st) m))"
  let ?rnd = "random env i m"
  from retry_shape [of ?gen ?rnd m] obtain n where n: "1 \<le> n" "n \<le> 3"
    and g: "getForecastWithRetries ?gen ?rnd m = (?gen (n - 1), retryTrace ?gen ?rnd n)"
    by blast
  from assms nt g obtain s where s: "s \<in> set (retryTrace ?gen ?rnd n)" "e = stepEvent i m s"
    by (auto simp: forecastPromise_def Let_def)
  from s(2) show "eventTick e = i" "eventModel e = m" by (simp_all add: stepEvent_tick_model)
  from s(2) show "\<And>j mid ok. e \<noteq> JudgeCall j mid ok"
    by (cases s) (simp_all add: stepEvent_def)
  show "k < 3" if "e = ForecastCall j mid k ok" for j mid k ok
  proof -
    from that s(2) have "s = Call k ok" by (cases s) (simp_all add: stepEvent_def)
    with s(1) have "Call k ok \<in> set (retryTrace ?gen ?rnd n)" by simp
    from retryTrace_calls [OF this n(1)] n(2) show ?thesis by simp
  qed
qed

lemma forecastPromise_first_call:
  assumes "\<not> truthy (persistentModelErrors st) m"
  shows "\<exists>ok. ForecastCall i m 0 ok \<in> set (snd (forecastPromise env config i st m))"
proof -
  let ?gen = "forecaster env i m (sliceLast (feedbackLimit config) (historyOf (modelFeedbackHistory st) m))"
  let ?rnd = "random env i m"
  from retry_shape [of ?gen ?rnd m] obtain n where n: "1 \<le> n" "n \<le> 3"
    and g: "getForecastWithRetries ?gen ?rnd m = (?gen (n - 1), retryTrace ?gen ?rnd n)"
    by blast
  have "\<exists>ok. Call 0 ok \<in> set (retryTrace ?gen ?rnd n)"
  proof (cases "n = 1")
    case True
    then show ?thesis by (simp add: retryTrace_def)
  next
    case False
    with n have "0 < n - 1" by simp
    then have "Call 0 False \<in> set (retryTrace ?gen ?rnd n)"
      by (simp add: retryTrace_def upt_conv_Cons)
    then show ?thesis by blast
  qed
  then obtain ok where "Call 0 ok \<in> set (retryTrace ?gen ?rnd n)" by blast
  then have "stepEvent i m (Call 0 ok) \<in> set (snd (forecastPromise env config i st m))"
    using assms g by (simp add: forecastPromise_def Let_def)
  then show ?thesis by (auto simp: stepEvent_def)
qed

lemma forecastPromise_model: "settledModel (fst (forecastPromise env config i st m)) = m"
  by (simp add: forecastPromise_def Let_def split: Outcome.splits)

text \<open>Going through the settled forecasts never changes an entry that is truthy.\<close>

lemma settleForecast_truthy:
  assumes "truthy errs m"
  shows "map_of (snd (settleForecast r (tf, errs))) m = map_of errs m"
  using assms
  by (cases r) (auto simp: settleForecast_def Let_def update_conv')

lemma settleForecast_other:
  assumes "settledModel r \<noteq> m"
  shows "map_of (snd (settleForecast r (tf, errs))) m = map_of errs m"
    and "map_of (fst (settleForecast r (tf, errs))) m = map_of tf m"
  using assms
  by (cases r; simp add: settleForecast_def Let_def update_conv')+

lemma settleForecast_skipped:
  "settleForecast (Skipped m) acc = acc"
  by (cases acc) (simp add: settleForecast_def)

lemma settleForecast_distinct:
  assumes "distinct (map fst tf)"
  shows "distinct (map fst (fst (settleForecast r (tf, errs))))"
  using assms
  by (cases r) (simp_all add: settleForecast_def Let_def distinct_update)

lemma fold_settleForecast_truthy:
  assumes "truthy errs m"
  shows "map_of (snd (fold settleForecast rs (tf, errs))) m = map_of errs m"
  using assms
proof (induction rs arbitrary: tf errs)
  case Nil
  then show ?case by simp
next
  case (Cons r rs)
  obtain tf' errs' where s: "settleForecast r (tf, errs) = (tf', errs')"
    by (cases "settleForecast r (tf, errs)") auto
  from settleForecast_truthy [OF Cons.prems, of r tf] s
  have eq: "map_of errs' m = map_of errs m" by simp
  with Cons.prems have "truthy errs' m" by (simp add: truthy_def)
  from Cons.IH [OF this, of tf'] eq s show ?case by simp
qed

lemma fold_settleForecast_distinct:
  assumes "distinct (map fst tf)"
  shows "distinct (map fst (fst (fold settleForecast rs (tf, errs))))"
  using assms
proof (induction rs arbitrary: tf errs)
  case Nil
  then show ?case by simp
next
  case (Cons r rs)
  obtain tf' errs' where s: "settleForecast r (tf, errs) = (tf', errs')"
    by (cases "settleForecast r (tf, errs)") auto
  from settleForecast_distinct [OF Cons.prems, of r errs] s have "distinct (map fst tf')" by simp
  from Cons.IH [OF this, of errs'] s show ?case by simp
qed

lemma fold_settleForecast_no_forecast:
  assumes "\<forall>r \<in> set rs. settledModel r = m \<longrightarrow> r = Skipped m"
  shows "map_of (fst (fold settleForecast rs (tf, errs))) m = map_of tf m
       \<and> map_of (snd (fold settleForecast rs (tf, errs))) m = map_of errs m"
  using assms
proof (induction rs arbitrary: tf errs)
  case Nil
  show ?case by simp
next
  case (Cons r rs)
  obtain tf' errs' where s: "settleForecast r (tf, errs) = (tf', errs')"
    by (cases "settleForecast r (tf, errs)") auto
  have eq: "map_of tf' m = map_of tf m \<and> map_of errs' m = map_of errs m"
  proof (cases "settledModel r = m")
    case True
    with Cons.prems(1) have "r = Skipped m" by simp
    with s show ?thesis by (simp add: settleForecast_skipped)
  next
    case False
    from settleForecast_other [OF False, of tf errs] s show ?thesis by simp
  qed
  from Cons.prems have "\<forall>r \<in> set rs. settledModel r = m \<longrightarrow> r = Skipped m" by simp
  from Cons.IH [OF this, of tf' errs'] eq s show ?case by simp
qed

lemma forecastStep_fields:
  "calls (snd (forecastStep env config models i st))
     = calls st @ concat (map snd (map (forecastPromise env config i st) models))"
  "tickResults (snd (forecastStep env config models i st)) = tickResults st"
  "modelFeedbackHistory (snd (forecastStep env config models i st)) = modelFeedbackHistory st"
  "modelPerformanceHistory (snd (forecastStep env config models i st)) = modelPerformanceHistory st"
  by (simp_all add: forecastStep_def Let_def)

lemma forecastStep_new_events:
  assumes "e \<in> set (concat (map snd (map (forecastPromise env config i st) models)))"
  shows "eventTick e = i" and "eventModel e \<in> set models"
    and "\<not> truthy (persistentModelErrors st) (eventModel e)"
    and "\<And>j mid ok. e \<noteq> JudgeCall j mid ok"
    and "\<And>j mid k ok. e = ForecastCall j mid k ok \<Longrightarrow> k < 3"
proof -
  from assms obtain m where m: "m \<in> set models"
    "e \<in> set (snd (forecastPromise env config i st m))" by auto
  note f = forecastPromise_events [OF m(2)]
  from f(1) show "eventTick e = i" .
  from f(2) m(1) show "eventModel e \<in> set models" by simp
  from f(2,3) show "\<not> truthy (persistentModelErrors st) (eventModel e)" by simp
  from f(4) show "\<And>j mid ok. e \<noteq> JudgeCall j mid ok" .
  from f(5) show "\<And>j mid k ok. e = ForecastCall j mid k ok \<Longrightarrow> k < 3" .
qed

lemma forecastStep_first_call:
  assumes "m \<in> set models" and "\<not> truthy (persistentModelErrors st) m"
  shows "\<exists>ok. ForecastCall i m 0 ok
           \<in> set (concat (map snd (map (forecastPromise env config i st) models)))"
  using forecastPromise_first_call [OF assms(2), of i env config] assms(1) by auto

lemma forecastStep_truthy:
  assumes "truthy (persistentModelErrors st) m"
  shows "map_of (persistentModelErrors (snd (forecastStep env config models i st))) m
           = map_of (persistentModelErrors st) m"
    and "map_of (fst (forecastStep env config models i st)) m = None"
proof -
  let ?rs = "map fst (map (forecastPromise env config i st) models)"
  have sk: "\<forall>r \<in> set ?rs. settledModel r = m \<longrightarrow> r = Skipped m"
  proof (intro ballI impI)
    fix r assume r: "r \<in> set ?rs" "settledModel r = m"
    from r(1) obtain m' where m': "r = fst (forecastPromise env config i st m')" by auto
    with r(2) have "m' = m" by (simp add: forecastPromise_model)
    with m' assms show "r = Skipped m" by (simp add: forecastPromise_skipped)
  qed
  from fold_settleForecast_no_forecast [OF sk, of "[]" "persistentModelErrors st"]
  show "map_of (persistentModelErrors (snd (forecastStep env config models i st))) m
           = map_of (persistentModelErrors st) m"
    and "map_of (fst (forecastStep env config models i st)) m = None"
    by (simp_all add: forecastStep_def Let_def)
qed

lemma forecastStep_not_model:
  assumes "m \<notin> set models"
  shows "map_of (persistentModelErrors (snd (forecastStep env config models i st))) m
           = map_of (persistentModelErrors st) m"
    and "map_of (fst (forecastStep env config models i st)) m = None"
proof -
  let ?rs = "map fst (map (forecastPromise env config i st) models)"
  have sk: "\<forall>r \<in> set ?rs. settledModel r = m \<longrightarrow> r = Skipped m"
  proof (intro ballI impI)
    fix r assume r: "r \<in> set ?rs" "settledModel r = m"
    from r(1) obtain m' where m': "m' \<in> set models" "r = fst (forecastPromise env config i st m')"
      by auto
    with r(2) have "m' = m" by (simp add: forecastPromise_model)
    with m'(1) assms show "r = Skipped m" by simp
  qed
  from fold_settleForecast_no_forecast [OF sk, of "[]" "persistentModelErrors st"]
  show "map_of (persistentModelErrors (snd (forecastStep env config models i st))) m
           = map_of (persistentModelErrors st) m"
    and "map_of (fst (forecastStep env config models i st)) m = None"
    by (simp_all add: forecastStep_def Let_def)
qed

lemma forecastStep_distinct:
  "distinct (map fst (fst (forecastStep env config models i st)))"
  using fold_settleForecast_distinct [of "[]"]
  by (simp add: forecastStep_def Let_def)

lemma forecastStep_keys:
  assumes "m \<in> fst ` set (fst (forecastStep env config models i st))"
  shows "m \<in> set models" and "\<not> truthy (persistentModelErrors st) m"
proof -
  from assms have ne: "map_of (fst (forecastStep env config models i st)) m \<noteq> None"
    by (simp add: map_of_eq_None_iff)
  with forecastStep_not_model(2) [of m models env config i st] show "m \<in> set models" by auto
  from ne forecastStep_truthy(2) [of st m env config models i]
  show "\<not> truthy (persistentModelErrors st) m" by auto
qed

section \<open>One evaluation step\<close>

lemma settleEvaluation_fields:
  "calls (snd (settleEvaluation sf a r (te, st))) = calls st"
  "tickResults (snd (settleEvaluation sf a r (te, st))) = tickResults st"
  by (cases r; cases "snd r"; simp add: settleEvaluation_def Let_def)+

lemma fold_settleEvaluation_fields:
  "calls (snd (fold (settleEvaluation sf a) rs (te, st))) = calls st
   \<and> tickResults (snd (fold (settleEvaluation sf a) rs (te, st))) = tickResults st"
proof (induction rs arbitrary: te st)
  case Nil
  show ?case by simp
next
  case (Cons r rs)
  obtain te' st' where s: "settleEvaluation sf a r (te, st) = (te', st')"
    by (cases "settleEvaluation sf a r (te, st)") auto
  from settleEvaluation_fields [of sf a r te st] s
  have "calls st' = calls st" "tickResults st' = tickResults st" by simp_all
  with Cons.IH [of te' st'] s show ?case by simp
qed

lemma settleEvaluation_truthy:
  assumes "truthy (persistentModelErrors st) m"
  shows "map_of (persistentModelErrors (snd (settleEvaluation sf a r (te, st)))) m
           = map_of (persistentModelErrors st) m"
  using assms
  by (cases r; cases "snd r") (auto simp: settleEvaluation_def Let_def update_conv')

lemma settleEvaluation_other:
  assumes "fst r \<noteq> m"
  shows "map_of (persistentModelErrors (snd (settleEvaluation sf a r (te, st)))) m
           = map_of (persistentModelErrors st) m"
  using assms
  by (cases r; cases "snd r") (auto simp: settleEvaluation_def Let_def update_conv')

lemma settleEvaluation_rejected:
  "truthy (persistentModelErrors (snd (settleEvaluation sf a (m, Rejected why) (te, st)))) m"
  by (simp add: settleEvaluation_def Let_def truthy_update_same)

lemma fold_settleEvaluation_truthy:
  assumes "truthy (persistentModelErrors st) m"
  shows "map_of (persistentModelErrors (snd (fold (settleEvaluation sf a) rs (te, st)))) m
           = map_of (persistentModelErrors st) m"
  using assms
proof (induction rs arbitrary: te st)
  case Nil
  then show ?case by simp
next
  case (Cons r rs)
  obtain te' st' where s: "settleEvaluation sf a r (te, st) = (te', st')"
    by (cases "settleEvaluation sf a r (te, st)") auto
  from settleEvaluation_truthy [OF Cons.prems, of sf a r te] s
  have eq: "map_of (persistentModelErrors st') m = map_of (persistentModelErrors st) m" by simp
  with Cons.prems have "truthy (persistentModelErrors st') m" by (simp add: truthy_def)
  from Cons.IH [OF this, of te'] eq s show ?case by simp
qed

lemma fold_settleEvaluation_other:
  assumes "m \<notin> fst ` set rs"
  shows "map_of (persistentModelErrors (snd (fold (settleEvaluation sf a) rs (te, st)))) m
           = map_of (persistentModelErrors st) m"
  using assms
proof (induction rs arbitrary: te st)
  case Nil
  then show ?case by simp
next
  case (Cons r rs)
  obtain te' st' where s: "settleEvaluation sf a r (te, st) = (te', st')"
    by (cases "settleEvaluation sf a r (te, st)") auto
  from Cons.prems have "fst r \<noteq> m" "m \<notin> fst ` set rs" by auto
  from settleEvaluation_other [OF this(1), of sf a te st] s
  have eq: "map_of (persistentModelErrors st') m = map_of (persistentModelErrors st) m" by simp
  from Cons.IH [OF \<open>m \<notin> fst ` set rs\<close>, of te' st'] eq s show ?case by simp
qed

lemma fold_settleEvaluation_rejected:
  assumes "(m, Rejected why) \<in> set rs"
  shows "truthy (persistentModelErrors (snd (fold (settleEvaluation sf a) rs (te, st)))) m"
  using assms
proof (induction rs arbitrary: te st)
  case Nil
  then show ?case by simp
next
  case (Cons r rs)
  obtain te' st' where s: "settleEvaluation sf a r (te, st) = (te', st')"
    by (cases "settleEvaluation sf a r (te, st)") auto
  show ?case
  proof (cases "(m, Rejected why) \<in> set rs")
    case True
    from Cons.IH [OF True, of te' st'] s show ?thesis by simp
  next
    case False
    with Cons.prems have r: "r = (m, Rejected why)" by simp
    from settleEvaluation_rejected [of sf a m why te st] s r
    have t: "truthy (persistentModelErrors st') m" by simp
    from fold_settleEvaluation_truthy [OF t, of sf a rs te'] t s show ?thesis
      by (simp add: truthy_def)
  qed
qed

lemma evaluationPromise_fst: "fst (evaluationPromise env config i st a e) = fst e"
  by (cases e) (simp add: evaluationPromise_def Let_def)

lemma map_fst_evaluationPromise:
  "map fst (map (evaluationPromise env config i st a) tf) = map fst tf"
  by (simp add: evaluationPromise_fst)

lemma evaluationStep_calls:
  "calls (evaluationStep env config i cur a tf st2)
     = calls st2 @ map (judgeEvent i) (map (evaluationPromise env config i st2 a) tf)"
  using fold_settleEvaluation_fields
          [of tf a "map (evaluationPromise env config i st2 a) tf" "[]"
              "st2 \<lparr> calls := calls st2 @ map (judgeEvent i) (map (evaluationPromise env config i st2 a) tf) \<rparr>"]
  by (simp add: evaluationStep_def Let_def)

lemma evaluationStep_results:
  "\<exists>rs. tickResults (evaluationStep env config i cur a tf st2) = tickResults st2 @ rs
        \<and> length rs \<le> 1
        \<and> (\<forall>r \<in> set rs. tickIndex r = i \<and> tickData r = cur \<and> forecasts r = tf)"
  using fold_settleEvaluation_fields
          [of tf a "map (evaluationPromise env config i st2 a) tf" "[]"
              "st2 \<lparr> calls := calls st2 @ map (judgeEvent i) (map (evaluationPromise env config i st2 a) tf) \<rparr>"]
  by (simp add: evaluationStep_def Let_def)

lemma evaluationStep_truthy:
  assumes "truthy (persistentModelErrors st2) m"
  shows "map_of (persistentModelErrors (evaluationStep env config i cur a tf st2)) m
           = map_of (persistentModelErrors st2) m"
  using fold_settleEvaluation_truthy
          [of "st2 \<lparr> calls := calls st2 @ map (judgeEvent i) (map (evaluationPromise env config i st2 a) tf) \<rparr>"
              m tf a "map (evaluationPromise env config i st2 a) tf" "[]"] assms
  by (simp add: evaluationStep_def Let_def)

lemma evaluationStep_other:
  assumes "m \<notin> fst ` set tf"
  shows "map_of (persistentModelErrors (evaluationStep env config i cur a tf st2)) m
           = map_of (persistentModelErrors st2) m"
proof -
  from assms have "m \<notin> fst ` set (map (evaluationPromise env config i st2 a) tf)"
    by (simp add: image_image evaluationPromise_fst)
  from fold_settleEvaluation_other [OF this, of tf a "[]"
        "st2 \<lparr> calls := calls st2 @ map (judgeEvent i) (map (evaluationPromise env config i st2 a) tf) \<rparr>"]
  show ?thesis by (simp add: evaluationStep_def Let_def)
qed

lemma judgeEvent_failed:
  assumes "JudgeCall j m False \<in> set (map (judgeEvent i) rs)"
  shows "j = i \<and> (\<exists>why. (m, Rejected why) \<in> set rs)"
proof -
  from assms obtain r where r: "r \<in> set rs" "judgeEvent i r = JudgeCall j m False" by auto
  obtain mid oc where p: "r = (mid, oc)" by (cases r) auto
  from r(2) p obtain why where "j = i" "mid = m" "oc = Rejected why"
    by (cases oc) (auto simp: judgeEvent_def)
  with r(1) p show ?thesis by auto
qed

lemma evaluationStep_rejected:
  assumes "JudgeCall j m False
             \<in> set (map (judgeEvent i) (map (evaluationPromise env config i st2 a) tf))"
  shows "truthy (persistentModelErrors (evaluationStep env config i cur a tf st2)) m"
proof -
  from judgeEvent_failed [OF assms] obtain why where
    "(m, Rejected why) \<in> set (map (evaluationPromise env config i st2 a) tf)" by blast
  from fold_settleEvaluation_rejected [OF this, of tf a "[]"
        "st2 \<lparr> calls := calls st2 @ map (judgeEvent i) (map (evaluationPromise env config i st2 a) tf) \<rparr>"]
  show ?thesis by (simp add: evaluationStep_def Let_def)
qed

lemma judgeEvent_tick_model:
  "eventTick (judgeEvent i r) = i" "eventModel (judgeEvent i r) = fst r"
  by (simp_all add: judgeEvent_def)

lemma filter_fst_distinct:
  assumes "distinct (map fst rs)"
  shows "length (filter (\<lambda>r. fst r = m) rs) \<le> 1"
  using assms
proof (induction rs)
  case Nil
  then show ?case by simp
next
  case (Cons r rs)
  show ?case
  proof (cases "fst r = m")
    case True
    with Cons.prems have "m \<notin> fst ` set rs" by auto
    then have "filter (\<lambda>r. fst r = m) rs = []" by (auto simp: filter_empty_conv)
    with True show ?thesis by simp
  next
    case False
    with Cons show ?thesis by simp
  qed
qed

lemma isJudgeCall_judgeEvent: "isJudgeCall i m (judgeEvent j r) = (j = i \<and> fst r = m)"
  by (simp add: judgeEvent_def)

lemma judge_calls_once:
  assumes "distinct (map fst rs)"
  shows "length (filter (isJudgeCall i m) (map (judgeEvent j) rs)) \<le> 1"
proof -
  have "length (filter (isJudgeCall i m) (map (judgeEvent j) rs))
          = length (filter (\<lambda>r. j = i \<and> fst r = m) rs)"
    by (simp add: filter_map o_def isJudgeCall_judgeEvent)
  also have "\<dots> \<le> length (filter (\<lambda>r. fst r = m) rs)"
    by (cases "j = i") simp_all
  also have "\<dots> \<le> 1" by (rule filter_fst_distinct [OF assms])
  finally show ?thesis .
qed

lemma isJudgeCall_tick: "isJudgeCall i m e \<Longrightarrow> eventTick e = i \<and> eventModel e = m"
  by (cases e) simp_all

section \<open>One iteration of the loop\<close>

lemma no_judge_in_forecast_events:
  "filter (isJudgeCall i m) (concat (map snd (map (forecastPromise env config j st) models))) = []"
proof -
  have "\<not> isJudgeCall i m e"
    if "e \<in> set (concat (map snd (map (forecastPromise env config j st) models)))" for e
    using forecastStep_new_events(4) [OF that] by (cases e) auto
  then show ?thesis by (auto simp: filter_empty_conv)
qed

lemma tickStep_summary:
  fixes env config ticks models i st
  defines "st' \<equiv> flowState (tickStep env config ticks models i st)"
  shows "\<exists>new rs.
           calls st' = calls st @ new
         \<and> tickResults st' = tickResults st @ rs
         \<and> (\<forall>e \<in> set new. eventTick e = i
               \<and> (\<forall>j mid k ok. e = ForecastCall j mid k ok \<longrightarrow> k < 3)
               \<and> \<not> truthy (persistentModelErrors st) (eventModel e))
         \<and> (\<forall>m. length (filter (isJudgeCall i m) new) \<le> 1)
         \<and> (\<forall>j m. JudgeCall j m False \<in> set new \<longrightarrow> truthy (persistentModelErrors st') m)
         \<and> (\<forall>m. truthy (persistentModelErrors st) m \<longrightarrow>
               map_of (persistentModelErrors st') m = map_of (persistentModelErrors st) m)
         \<and> (\<forall>r \<in> set rs. tickIndex r = i)"
proof (cases "length ticks \<le> i + 1")
  case True
  then have "st' = st" by (simp add: st'_def tickStep_def)
  then show ?thesis by (intro exI [of _ "[]"]) simp
next
  case False
  obtain tf st2 where fs: "forecastStep env config models i st = (tf, st2)"
    by (cases "forecastStep env config models i st") auto
  let ?fe = "concat (map snd (map (forecastPromise env config i st) models))"
  from forecastStep_fields [of env config models i st] fs
  have c2: "calls st2 = calls st @ ?fe" and r2: "tickResults st2 = tickResults st" by simp_all
  have fe: "eventTick e = i \<and> (\<forall>j mid k ok. e = ForecastCall j mid k ok \<longrightarrow> k < 3)
               \<and> \<not> truthy (persistentModelErrors st) (eventModel e)
               \<and> (\<forall>j m ok. e \<noteq> JudgeCall j m ok)"
    if "e \<in> set ?fe" for e
    using forecastStep_new_events [OF that] by blast
  have t2: "map_of (persistentModelErrors st2) m = map_of (persistentModelErrors st) m"
    if "truthy (persistentModelErrors st) m" for m
    using forecastStep_truthy(1) [OF that, of env config models i] fs by simp
  show ?thesis
  proof (cases "pValue (primary (ticks ! (i + 1)))")
    case None
    with False fs have s: "st' = st2" by (simp add: st'_def tickStep_def)
    show ?thesis
    proof (intro exI [of _ ?fe] exI [of _ "[]"] conjI)
      show "calls st' = calls st @ ?fe" by (simp add: s c2)
      show "tickResults st' = tickResults st @ []" by (simp add: s r2)
      show "\<forall>e \<in> set ?fe. eventTick e = i
               \<and> (\<forall>j mid k ok. e = ForecastCall j mid k ok \<longrightarrow> k < 3)
               \<and> \<not> truthy (persistentModelErrors st) (eventModel e)"
        using fe by blast
      show "\<forall>m. length (filter (isJudgeCall i m) ?fe) \<le> 1"
        unfolding no_judge_in_forecast_events by simp
      show "\<forall>j m. JudgeCall j m False \<in> set ?fe \<longrightarrow> truthy (persistentModelErrors st') m"
        using fe by blast
      show "\<forall>m. truthy (persistentModelErrors st) m \<longrightarrow>
               map_of (persistentModelErrors st') m = map_of (persistentModelErrors st) m"
        using t2 by (simp add: s)
      show "\<forall>r \<in> set []. tickIndex r = i" by simp
    qed
  next
    case (Some a)
    let ?je = "map (judgeEvent i) (map (evaluationPromise env config i st2 a) tf)"
    from Some False fs have s: "st' = evaluationStep env config i (ticks ! i) a tf st2"
      by (simp add: st'_def tickStep_def)
    from evaluationStep_results [of env config i "ticks ! i" a tf st2] obtain rs where
      rs: "tickResults st' = tickResults st2 @ rs" "\<forall>r \<in> set rs. tickIndex r = i"
      by (auto simp: s)
    have keys: "m \<in> set models \<and> \<not> truthy (persistentModelErrors st) m"
      if "m \<in> fst ` set tf" for m
      using forecastStep_keys [of m env config models i st] that fs by simp
    have je: "eventTick e = i \<and> (\<forall>j mid k ok. e \<noteq> ForecastCall j mid k ok)
               \<and> \<not> truthy (persistentModelErrors st) (eventModel e)"
      if "e \<in> set ?je" for e
    proof -
      from that obtain x where x: "x \<in> set tf"
        "e = judgeEvent i (evaluationPromise env config i st2 a x)" by auto
      from x(2) have "eventModel e = fst x"
        by (simp add: judgeEvent_tick_model evaluationPromise_fst)
      with keys [of "fst x"] x(1) have "\<not> truthy (persistentModelErrors st) (eventModel e)"
        by simp
      with x(2) show ?thesis by (simp add: judgeEvent_def)
    qed
    have d: "distinct (map fst (map (evaluationPromise env config i st2 a) tf))"
      unfolding map_fst_evaluationPromise
      using forecastStep_distinct [of env config models i st] fs by simp
    show ?thesis
    proof (intro exI [of _ "?fe @ ?je"] exI [of _ rs] conjI)
      show "calls st' = calls st @ ?fe @ ?je"
        by (simp add: s evaluationStep_calls c2)
      show "tickResults st' = tickResults st @ rs" using rs(1) by (simp add: r2)
      show "\<forall>e \<in> set (?fe @ ?je). eventTick e = i
               \<and> (\<forall>j mid k ok. e = ForecastCall j mid k ok \<longrightarrow> k < 3)
               \<and> \<not> truthy (persistentModelErrors st) (eventModel e)"
      proof
        fix e assume "e \<in> set (?fe @ ?je)"
        then consider "e \<in> set ?fe" | "e \<in> set ?je" by auto
        then show "eventTick e = i
               \<and> (\<forall>j mid k ok. e = ForecastCall j mid k ok \<longrightarrow> k < 3)
               \<and> \<not> truthy (persistentModelErrors st) (eventModel e)"
        proof cases
          case 1
          from fe [OF this] show ?thesis by blast
        next
          case 2
          from je [OF this] show ?thesis by blast
        qed
      qed
      show "\<forall>m. length (filter (isJudgeCall i m) (?fe @ ?je)) \<le> 1"
        unfolding filter_append no_judge_in_forecast_events
        using judge_calls_once [OF d] by simp
      show "\<forall>j m. JudgeCall j m False \<in> set (?fe @ ?je) \<longrightarrow> truthy (persistentModelErrors st') m"
      proof (intro allI impI)
        fix j m assume "JudgeCall j m False \<in> set (?fe @ ?je)"
        then consider "JudgeCall j m False \<in> set ?fe" | "JudgeCall j m False \<in> set ?je"
          unfolding set_append by blast
        then have "JudgeCall j m False \<in> set ?je"
        proof cases
          case 1
          from fe [OF this] show ?thesis by blast
        next
          case 2
          then show ?thesis .
        qed
        from evaluationStep_rejected [OF this] show "truthy (persistentModelErrors st') m"
          by (simp add: s)
      qed
      show "\<forall>m. truthy (persistentModelErrors st) m \<longrightarrow>
               map_of (persistentModelErrors st') m = map_of (persistentModelErrors st) m"
      proof (intro allI impI)
        fix m assume t: "truthy (persistentModelErrors st) m"
        from t2 [OF t] t have "truthy (persistentModelErrors st2) m" by (simp add: truthy_def)
        from evaluationStep_truthy [OF this] t2 [OF t]
        show "map_of (persistentModelErrors st') m = map_of (persistentModelErrors st) m"
          by (simp add: s)
      qed
      show "\<forall>r \<in> set rs. tickIndex r = i" by (rule rs(2))
    qed
  qed
qed

section \<open>The invariant of the loop\<close>

lemma runInv_init: "runInv 0 (initialState models)"
  by (simp add: runInv_def initialState_def)

lemma filter_isJudgeCall_other_tick:
  assumes "\<forall>e \<in> set es. eventTick e \<noteq> i"
  shows "filter (isJudgeCall i m) es = []"
  using assms isJudgeCall_tick by (auto simp: filter_empty_conv)

lemma runInv_step:
  assumes "runInv n st"
  shows "runInv (Suc n) (flowState (tickStep env config ticks models n st))"
proof -
  let ?st' = "flowState (tickStep env config ticks models n st)"
  from tickStep_summary [of env config ticks models n st] obtain new rs where
    S: "calls ?st' = calls st @ new
         \<and> tickResults ?st' = tickResults st @ rs
         \<and> (\<forall>e \<in> set new. eventTick e = n
               \<and> (\<forall>j mid k ok. e = ForecastCall j mid k ok \<longrightarrow> k < 3)
               \<and> \<not> truthy (persistentModelErrors st) (eventModel e))
         \<and> (\<forall>m. length (filter (isJudgeCall n m) new) \<le> 1)
         \<and> (\<forall>j m. JudgeCall j m False \<in> set new \<longrightarrow> truthy (persistentModelErrors ?st') m)
         \<and> (\<forall>m. truthy (persistentModelErrors st) m \<longrightarrow>
               map_of (persistentModelErrors ?st') m = map_of (persistentModelErrors st) m)
         \<and> (\<forall>r \<in> set rs. tickIndex r = n)"
    by (elim exE)
  have c: "calls ?st' = calls st @ new" using S by (elim conjE)
  have r: "tickResults ?st' = tickResults st @ rs" using S by (elim conjE)
  have new: "eventTick e = n
               \<and> (\<forall>j mid k ok. e = ForecastCall j mid k ok \<longrightarrow> k < 3)
               \<and> \<not> truthy (persistentModelErrors st) (eventModel e)" if "e \<in> set new" for e
    using S that by (elim conjE) (rule bspec)
  have once: "length (filter (isJudgeCall n m) new) \<le> 1" for m
    using S by (elim conjE) (erule spec)
  have failed: "truthy (persistentModelErrors ?st') m" if "JudgeCall j m False \<in> set new" for j m
    using S that by (elim conjE) blast
  have keep: "map_of (persistentModelErrors ?st') m = map_of (persistentModelErrors st) m"
    if "truthy (persistentModelErrors st) m" for m
    using S that by (elim conjE) blast
  have rs: "tickIndex r = n" if "r \<in> set rs" for r
    using S that by (elim conjE) (rule bspec)
  have I: "(\<forall>e \<in> set (calls st).
         eventTick e < n \<and> (\<forall>j mid k ok. e = ForecastCall j mid k ok \<longrightarrow> k < 3))
      \<and> (\<forall>i m. JudgeCall i m False \<in> set (calls st) \<longrightarrow>
            truthy (persistentModelErrors st) m
            \<and> (\<forall>e \<in> set (calls st). eventModel e = m \<longrightarrow> eventTick e \<le> i))
      \<and> (\<forall>i m. length (filter (isJudgeCall i m) (calls st)) \<le> 1)
      \<and> (\<forall>r \<in> set (tickResults st). tickIndex r < n)"
    using assms unfolding runInv_def .
  have old: "eventTick e < n \<and> (\<forall>j mid k ok. e = ForecastCall j mid k ok \<longrightarrow> k < 3)"
    if "e \<in> set (calls st)" for e
    using I [THEN conjunct1] that by (rule bspec)
  have oldj: "truthy (persistentModelErrors st) m
            \<and> (\<forall>e \<in> set (calls st). eventModel e = m \<longrightarrow> eventTick e \<le> i)"
    if "JudgeCall i m False \<in> set (calls st)" for i m
    using I [THEN conjunct2, THEN conjunct1, THEN spec, THEN spec, THEN mp, OF that] .
  have oldc: "length (filter (isJudgeCall i m) (calls st)) \<le> 1" for i m
    using I [THEN conjunct2, THEN conjunct2, THEN conjunct1, THEN spec, THEN spec] .
  have oldr: "tickIndex r < n" if "r \<in> set (tickResults st)" for r
    using I [THEN conjunct2, THEN conjunct2, THEN conjunct2] that by (rule bspec)
  have A: "\<forall>e \<in> set (calls ?st').
         eventTick e < Suc n \<and> (\<forall>j mid k ok. e = ForecastCall j mid k ok \<longrightarrow> k < 3)"
  proof
    fix e assume "e \<in> set (calls ?st')"
    then consider "e \<in> set (calls st)" | "e \<in> set new" unfolding c set_append by blast
    then show "eventTick e < Suc n \<and> (\<forall>j mid k ok. e = ForecastCall j mid k ok \<longrightarrow> k < 3)"
    proof cases
      case 1
      from old [OF this] show ?thesis by auto
    next
      case 2
      from new [OF this] show ?thesis by auto
    qed
  qed
  have B: "\<forall>i m. JudgeCall i m False \<in> set (calls ?st') \<longrightarrow>
            truthy (persistentModelErrors ?st') m
            \<and> (\<forall>e \<in> set (calls ?st'). eventModel e = m \<longrightarrow> eventTick e \<le> i)"
  proof (intro allI impI)
    fix i m assume "JudgeCall i m False \<in> set (calls ?st')"
    then consider "JudgeCall i m False \<in> set (calls st)" | "JudgeCall i m False \<in> set new"
      unfolding c set_append by blast
    then show "truthy (persistentModelErrors ?st') m
            \<and> (\<forall>e \<in> set (calls ?st'). eventModel e = m \<longrightarrow> eventTick e \<le> i)"
    proof cases
      case 1
      from oldj [OF 1] have t: "truthy (persistentModelErrors st) m"
        and le: "\<And>e. e \<in> set (calls st) \<Longrightarrow> eventModel e = m \<Longrightarrow> eventTick e \<le> i" by auto
      from keep [OF t] t have t': "truthy (persistentModelErrors ?st') m" by (simp add: truthy_def)
      have "eventTick e \<le> i" if "e \<in> set (calls ?st')" "eventModel e = m" for e
      proof -
        from that(1) consider "e \<in> set (calls st)" | "e \<in> set new"
          unfolding c set_append by blast
        then show ?thesis
        proof cases
          case 1
          from le [OF this that(2)] show ?thesis .
        next
          case 2
          from new [OF this] that(2) t show ?thesis by simp
        qed
      qed
      with t' show ?thesis by blast
    next
      case 2
      from new [OF 2] have i: "i = n" by simp
      from failed [OF 2] have t': "truthy (persistentModelErrors ?st') m" .
      have "eventTick e \<le> i" if "e \<in> set (calls ?st')" for e
      proof -
        from that consider "e \<in> set (calls st)" | "e \<in> set new"
          unfolding c set_append by blast
        then show ?thesis
        proof cases
          case 1
          from old [OF this] i show ?thesis by simp
        next
          case 2
          from new [OF this] i show ?thesis by simp
        qed
      qed
      with t' show ?thesis by blast
    qed
  qed
  have C: "\<forall>i m. length (filter (isJudgeCall i m) (calls ?st')) \<le> 1"
  proof (intro allI)
    fix i m
    show "length (filter (isJudgeCall i m) (calls ?st')) \<le> 1"
    proof (cases "i = n")
      case True
      have "\<forall>e \<in> set (calls st). eventTick e \<noteq> i" using old True by auto
      from filter_isJudgeCall_other_tick [OF this] once [of m] True
      show ?thesis by (simp add: c)
    next
      case False
      have "\<forall>e \<in> set new. eventTick e \<noteq> i" using new False by auto
      from filter_isJudgeCall_other_tick [OF this] oldc [of i m]
      show ?thesis by (simp add: c)
    qed
  qed
  have D: "\<forall>r \<in> set (tickResults ?st'). tickIndex r < Suc n"
  proof
    fix x assume "x \<in> set (tickResults ?st')"
    then consider "x \<in> set (tickResults st)" | "x \<in> set rs" unfolding r set_append by blast
    then show "tickIndex x < Suc n"
    proof cases
      case 1
      from oldr [OF this] show ?thesis by simp
    next
      case 2
      from rs [OF this] show ?thesis by simp
    qed
  qed
  show ?thesis unfolding runInv_def
    by (intro conjI) (rule A, rule B, rule C, rule D)
qed

lemma runInv_loop:
  assumes "runInv n st"
  shows "\<exists>n'. runInv n' (tickLoop env config ticks models k n st)"
  using assms
proof (induction k arbitrary: n st)
  case 0
  then show ?case by auto
next
  case (Suc k)
  from runInv_step [OF Suc.prems, of env config ticks models]
  have s: "runInv (Suc n) (flowState (tickStep env config ticks models n st))" .
  show ?case
  proof (cases "tickStep env config ticks models n st")
    case (Break st')
    with s show ?thesis by auto
  next
    case (Next st')
    with s have "runInv (Suc n) st'" by simp
    from Suc.IH [OF this] Next show ?thesis by simp
  qed
qed

lemma runInv_runLoop: "\<exists>n. runInv n (runLoop env config ticks)"
  unfolding runLoop_def by (rule runInv_loop [OF runInv_init])

section \<open>The retry policy\<close>

lemma run_retry_calls:
  "calls (runLoop envRetry config1 ticks3) =
     [ForecastCall 0 ''P::m'' 0 False, ForecastSleep 0 ''P::m'' 2500,
      ForecastCall 0 ''P::m'' 1 False, ForecastSleep 0 ''P::m'' 4500,
      ForecastCall 0 ''P::m'' 2 True, JudgeCall 0 ''P::m'' False]"
  by code_simp

lemma wrapper_retry:
  "getForecastWithRetries (forecaster envRetry 0 ''P::m'' []) (random envRetry 0 ''P::m'') ''P::m''
     = (Fulfilled (mkForecast 108 0.6),
        [Call 0 False, Sleep 2500, Call 1 False, Sleep 4500, Call 2 True])"
  by code_simp

lemma retry_sleeps:
  assumes "Sleep d \<in> set (snd (getForecastWithRetries gen rnd mid))"
  shows "\<exists>a. 1 \<le> a \<and> a \<le> 2 \<and> d = 2 ^ a * 1000 + rnd a * 1000
           \<and> (0 \<le> rnd a \<and> rnd a < 1 \<longrightarrow> 2 ^ a * 1000 \<le> d \<and> d < 2 ^ a * 1000 + 1000)"
proof -
  from retry_shape [of gen rnd mid] obtain n where n: "n \<le> 3"
    and g: "getForecastWithRetries gen rnd mid = (gen (n - 1), retryTrace gen rnd n)"
    by blast
  from assms g have "Sleep d \<in> set (retryTrace gen rnd n)" by simp
  from retryTrace_sleeps [OF this] obtain a where
    a: "1 \<le> a" "a < n" "d = 2 ^ a * 1000 + rnd a * 1000" by blast
  from a n have "1 \<le> a \<and> a \<le> 2 \<and> d = 2 ^ a * 1000 + rnd a * 1000
           \<and> (0 \<le> rnd a \<and> rnd a < 1 \<longrightarrow> 2 ^ a * 1000 \<le> d \<and> d < 2 ^ a * 1000 + 1000)"
    by auto
  then show ?thesis by blast
qed

text \<open>
  Claim C3. The wrapper makes \<open>n\<close> calls with \<open>1 \<le> n \<le> 3\<close>: each of the first \<open>n - 1\<close>
  calls was rejected with a message that has a retryable signature (its lower-case form
  contains \<open>rate limit\<close>, \<open>500\<close>, \<open>502\<close>, \<open>503\<close>, \<open>504\<close> or \<open>overloaded\<close>) and is
  followed by a sleep; the result is the outcome of the last call, and when that is a
  rejection either its message is not retryable or it was the third call. Every sleep
  lasts \<open>2 ^ a * 1000 + Math.random() * 1000\<close> milliseconds for the retry number \<open>a\<close>, 1
  or 2, which is between \<open>2 ^ a\<close> seconds and less than one second more when
  \<open>Math.random()\<close> is in \<open>[0, 1)\<close>. In a run, no forecaster call has a number beyond 2;
  the judge is called at most once for a forecaster on a tick; and a forecaster whose
  evaluation was rejected has a truthy entry in \<open>persistentModelErrors\<close> when the loop
  ends, and no call at all, forecast or evaluation, for any later tick.
\<close>

theorem retry_policy:
  "(\<exists>n. 1 \<le> n \<and> n \<le> 3
       \<and> getForecastWithRetries gen rnd mid = (gen (n - 1), retryTrace gen rnd n)
       \<and> (\<forall>k<n - 1. \<exists>err. gen k = Rejected err \<and> isRetryable (lowerMessage err))
       \<and> (\<forall>err. gen (n - 1) = Rejected err \<longrightarrow> \<not> isRetryable (lowerMessage err) \<or> n = 3))
   \<and> (\<forall>d. Sleep d \<in> set (snd (getForecastWithRetries gen rnd mid)) \<longrightarrow>
         (\<exists>a. 1 \<le> a \<and> a \<le> 2 \<and> d = 2 ^ a * 1000 + rnd a * 1000
            \<and> (0 \<le> rnd a \<and> rnd a < 1 \<longrightarrow> 2 ^ a * 1000 \<le> d \<and> d < 2 ^ a * 1000 + 1000)))
   \<and> (\<forall>i m k ok. ForecastCall i m k ok \<in> set (calls (runLoop env config ticks)) \<longrightarrow> k < 3)
   \<and> (\<forall>i m. length (filter (isJudgeCall i m) (calls (runLoop env config ticks))) \<le> 1)
   \<and> (\<forall>i m. JudgeCall i m False \<in> set (calls (runLoop env config ticks)) \<longrightarrow>
         truthy (persistentModelErrors (runLoop env config ticks)) m
         \<and> (\<forall>e \<in> set (calls (runLoop env config ticks)). eventModel e = m \<longrightarrow> eventTick e \<le> i))"
proof -
  from runInv_runLoop [of env config ticks] obtain n where "runInv n (runLoop env config ticks)"
    by blast
  then have I: "(\<forall>e \<in> set (calls (runLoop env config ticks)).
         eventTick e < n \<and> (\<forall>j mid k ok. e = ForecastCall j mid k ok \<longrightarrow> k < 3))
      \<and> (\<forall>i m. JudgeCall i m False \<in> set (calls (runLoop env config ticks)) \<longrightarrow>
            truthy (persistentModelErrors (runLoop env config ticks)) m
            \<and> (\<forall>e \<in> set (calls (runLoop env config ticks)). eventModel e = m \<longrightarrow> eventTick e \<le> i))
      \<and> (\<forall>i m. length (filter (isJudgeCall i m) (calls (runLoop env config ticks))) \<le> 1)
      \<and> (\<forall>r \<in> set (tickResults (runLoop env config ticks)). tickIndex r < n)"
    unfolding runInv_def .
  have A: "\<forall>i m k ok. ForecastCall i m k ok \<in> set (calls (runLoop env config ticks)) \<longrightarrow> k < 3"
    using I [THEN conjunct1] by blast
  note B = I [THEN conjunct2, THEN conjunct1]
  note C = I [THEN conjunct2, THEN conjunct2, THEN conjunct1]
  have S: "\<forall>d. Sleep d \<in> set (snd (getForecastWithRetries gen rnd mid)) \<longrightarrow>
         (\<exists>a. 1 \<le> a \<and> a \<le> 2 \<and> d = 2 ^ a * 1000 + rnd a * 1000
            \<and> (0 \<le> rnd a \<and> rnd a < 1 \<longrightarrow> 2 ^ a * 1000 \<le> d \<and> d < 2 ^ a * 1000 + 1000))"
    using retry_sleeps by blast
  show ?thesis
    by (intro conjI) (rule retry_shape, rule S, rule A, rule C, rule B)
qed

text \<open>
  A forecaster that is rate-limited twice is called three times, after sleeps of 2.5 and
  4.5 seconds; the judge then fails, once, and the forecaster is not called for tick 1.
\<close>

theorem retry_policy_witness:
  "getForecastWithRetries (forecaster envRetry 0 ''P::m'' []) (random envRetry 0 ''P::m'') ''P::m''
     = (Fulfilled (mkForecast 108 0.6),
        [Call 0 False, Sleep 2500, Call 1 False, Sleep 4500, Call 2 True])
   \<and> calls (runLoop envRetry config1 ticks3) =
        [ForecastCall 0 ''P::m'' 0 False, ForecastSleep 0 ''P::m'' 2500,
         ForecastCall 0 ''P::m'' 1 False, ForecastSleep 0 ''P::m'' 4500,
         ForecastCall 0 ''P::m'' 2 True, JudgeCall 0 ''P::m'' False]
   \<and> truthy (persistentModelErrors (runLoop envRetry config1 ticks3)) ''P::m''
   \<and> length (filter (isJudgeCall 0 ''P::m'') (calls (runLoop envRetry config1 ticks3))) \<le> 1"
proof -
  have j: "JudgeCall 0 ''P::m'' False \<in> set (calls (runLoop envRetry config1 ticks3))"
    by (simp add: run_retry_calls)
  from retry_policy [of "forecaster envRetry 0 ''P::m'' []" "random envRetry 0 ''P::m''" "''P::m''"
        envRetry config1 ticks3] j
  have "truthy (persistentModelErrors (runLoop envRetry config1 ticks3)) ''P::m''"
    and "length (filter (isJudgeCall 0 ''P::m'') (calls (runLoop envRetry config1 ticks3))) \<le> 1"
    by blast+
  with wrapper_retry run_retry_calls show ?thesis by simp
qed

section \<open>A next tick without a value\<close>

lemma tickStep_continues:
  assumes "continues ticks j"
  shows "tickStep env config ticks models j st =
           Next (evaluationStep env config j (ticks ! j) (the (pValue (primary (ticks ! (j + 1)))))
                   (fst (forecastStep env config models j st))
                   (snd (forecastStep env config models j st)))"
  using assms
  by (auto simp: continues_def tickStep_def Let_def split: prod.splits option.splits)

lemma tickStep_null:
  assumes "j + 1 < length ticks" and "pValue (primary (ticks ! (j + 1))) = None"
  shows "tickStep env config ticks models j st = Break (snd (forecastStep env config models j st))"
  using assms
  by (auto simp: tickStep_def Let_def split: prod.splits)

lemma tickLoop_prefix:
  assumes "\<forall>j<a. continues ticks (n + j)"
  shows "tickLoop env config ticks models (a + k) n st
           = tickLoop env config ticks models k (n + a) (tickLoop env config ticks models a n st)"
  using assms
proof (induction a arbitrary: n st)
  case 0
  then show ?case by simp
next
  case (Suc a)
  from Suc.prems have c: "continues ticks n" by (metis add.right_neutral zero_less_Suc)
  from Suc.prems have "\<forall>j<a. continues ticks (Suc n + j)"
    by (metis Suc_less_eq add_Suc_right add_Suc)
  from Suc.IH [OF this] show ?case
    by (simp add: tickStep_continues [OF c])
qed

lemma runInv_loop_exact:
  assumes "runInv n st" and "\<forall>j<a. continues ticks (n + j)"
  shows "runInv (n + a) (tickLoop env config ticks models a n st)"
  using assms
proof (induction a arbitrary: n st)
  case 0
  then show ?case by simp
next
  case (Suc a)
  from Suc.prems(2) have c: "continues ticks n" by (metis add.right_neutral zero_less_Suc)
  from Suc.prems(2) have r: "\<forall>j<a. continues ticks (Suc n + j)"
    by (metis Suc_less_eq add_Suc_right add_Suc)
  from runInv_step [OF Suc.prems(1), of env config ticks models]
  have "runInv (Suc n)
          (evaluationStep env config n (ticks ! n) (the (pValue (primary (ticks ! (n + 1)))))
                   (fst (forecastStep env config models n st))
                   (snd (forecastStep env config models n st)))"
    by (simp add: tickStep_continues [OF c])
  from Suc.IH [OF this r] show ?case
    by (simp add: tickStep_continues [OF c])
qed

lemma maxTicks_bound:
  assumes "i < maxTicksToProcess config ticks"
  shows "i + 1 < length ticks"
  using assms by (auto simp: maxTicksToProcess_def)

text \<open>
  Claim C2, as amended. When the loop reaches the index \<open>i\<close> and the next tick has no
  value, the loop stops during the iteration for \<open>i\<close>, after its forecast step and before
  its evaluation step. The final state is the one the forecast step of that iteration
  leaves: every forecaster without a truthy error entry is called for tick \<open>i\<close>; the judge
  is not called for tick \<open>i\<close>; no call is made for a later tick; and the tick results are
  those committed for the earlier ticks, unchanged.
\<close>

theorem loop_stops_after_forecast_step:
  assumes "i < maxTicksToProcess config ticks"
    and "pValue (primary (ticks ! (i + 1))) = None"
    and "\<forall>j<i. pValue (primary (ticks ! (j + 1))) \<noteq> None"
  shows "runLoop env config ticks
           = snd (forecastStep env config (forecasterModelsOf config) i
                    (tickLoop env config ticks (forecasterModelsOf config) i 0
                       (initialState (forecasterModelsOf config))))
       \<and> tickResults (runLoop env config ticks)
           = tickResults (tickLoop env config ticks (forecasterModelsOf config) i 0
                            (initialState (forecasterModelsOf config)))
       \<and> (\<forall>r \<in> set (tickResults (runLoop env config ticks)). tickIndex r < i)
       \<and> (\<forall>m \<in> set (forecasterModelsOf config).
             \<not> truthy (persistentModelErrors
                        (tickLoop env config ticks (forecasterModelsOf config) i 0
                           (initialState (forecasterModelsOf config)))) m \<longrightarrow>
             (\<exists>ok. ForecastCall i m 0 ok \<in> set (calls (runLoop env config ticks))))
       \<and> (\<forall>e \<in> set (calls (runLoop env config ticks)).
             eventTick e \<le> i \<and> (\<forall>j m ok. e = JudgeCall j m ok \<longrightarrow> j < i))"
proof -
  let ?models = "forecasterModelsOf config"
  let ?pre = "tickLoop env config ticks ?models i 0 (initialState ?models)"
  let ?fe = "concat (map snd (map (forecastPromise env config i ?pre) ?models))"
  from assms(1) have len: "i + 1 < length ticks" by (rule maxTicks_bound)
  have cont: "\<forall>j<i. continues ticks (0 + j)"
    using assms(3) len by (simp add: continues_def)
  from less_imp_Suc_add [OF assms(1)] obtain k where
    "maxTicksToProcess config ticks = Suc (i + k)" by (elim exE)
  then have k: "maxTicksToProcess config ticks = i + Suc k" by simp
  have "runLoop env config ticks
          = tickLoop env config ticks ?models (i + Suc k) 0 (initialState ?models)"
    unfolding runLoop_def k ..
  also have "\<dots> = tickLoop env config ticks ?models (Suc k) (0 + i) ?pre"
    by (rule tickLoop_prefix [OF cont])
  also have "\<dots> = snd (forecastStep env config ?models i ?pre)"
    by (simp add: tickStep_null [OF len assms(2)])
  finally have fin: "runLoop env config ticks = snd (forecastStep env config ?models i ?pre)" .
  have inv: "runInv i ?pre"
    using runInv_loop_exact [OF runInv_init cont, of env config ?models ?models] by simp
  have c: "calls (runLoop env config ticks) = calls ?pre @ ?fe"
    by (simp add: fin forecastStep_fields)
  have r: "tickResults (runLoop env config ticks) = tickResults ?pre"
    by (simp add: fin forecastStep_fields)
  have R: "\<forall>r \<in> set (tickResults (runLoop env config ticks)). tickIndex r < i"
    unfolding r using inv unfolding runInv_def by (elim conjE)
  have F: "\<forall>m \<in> set ?models. \<not> truthy (persistentModelErrors ?pre) m \<longrightarrow>
             (\<exists>ok. ForecastCall i m 0 ok \<in> set (calls (runLoop env config ticks)))"
  proof (intro ballI impI)
    fix m assume "m \<in> set ?models" "\<not> truthy (persistentModelErrors ?pre) m"
    from forecastStep_first_call [OF this, of i env config]
    show "\<exists>ok. ForecastCall i m 0 ok \<in> set (calls (runLoop env config ticks))"
      unfolding c set_append by blast
  qed
  have old: "eventTick e < i" if "e \<in> set (calls ?pre)" for e
    using inv that unfolding runInv_def by (elim conjE) blast
  have E: "\<forall>e \<in> set (calls (runLoop env config ticks)).
             eventTick e \<le> i \<and> (\<forall>j m ok. e = JudgeCall j m ok \<longrightarrow> j < i)"
  proof
    fix e assume "e \<in> set (calls (runLoop env config ticks))"
    then consider "e \<in> set (calls ?pre)" | "e \<in> set ?fe" unfolding c set_append by blast
    then show "eventTick e \<le> i \<and> (\<forall>j m ok. e = JudgeCall j m ok \<longrightarrow> j < i)"
    proof cases
      case 1
      from old [OF this] show ?thesis by auto
    next
      case 2
      from forecastStep_new_events(1,4) [OF this] show ?thesis by auto
    qed
  qed
  show ?thesis
    by (intro conjI) (rule fin, rule r, rule R, rule F, rule E)
qed


lemma run_null_next_calls:
  "calls (runLoop envSteady config1 ticks5) =
     [ForecastCall 0 ''P::m'' 0 True, JudgeCall 0 ''P::m'' True,
      ForecastCall 1 ''P::m'' 0 True, JudgeCall 1 ''P::m'' True,
      ForecastCall 2 ''P::m'' 0 True]"
  by code_simp

lemma run_null_next_results:
  "map tickIndex (tickResults (runLoop envSteady config1 ticks5)) = [0, 1]"
  by code_simp

text \<open>
  In a run over five ticks of which the fourth has no value, the iteration for the index
  2 calls the forecaster and then stops the loop: the tick results are those of the ticks
  0 and 1.
\<close>

theorem loop_stops_after_forecast_step_witness:
  "2 < maxTicksToProcess config1 ticks5
   \<and> pValue (primary (ticks5 ! (2 + 1))) = None
   \<and> pValue (primary (ticks5 ! 1)) \<noteq> None \<and> pValue (primary (ticks5 ! 2)) \<noteq> None
   \<and> (\<exists>ok. ForecastCall 2 ''P::m'' 0 ok \<in> set (calls (runLoop envSteady config1 ticks5)))
   \<and> tickResults (runLoop envSteady config1 ticks5)
        = tickResults (tickLoop envSteady config1 ticks5 (forecasterModelsOf config1) 2 0
                         (initialState (forecasterModelsOf config1)))
   \<and> map tickIndex (tickResults (runLoop envSteady config1 ticks5)) = [0, 1]"
proof -
  have h1: "2 < maxTicksToProcess config1 ticks5"
    by (simp add: maxTicksToProcess_def config1_def ticks5_def)
  have h2: "pValue (primary (ticks5 ! (2 + 1))) = None"
    by (simp add: ticks5_def mkTick_def)
  have h3: "\<forall>j<2. pValue (primary (ticks5 ! (j + 1))) \<noteq> None"
    by (simp add: ticks5_def mkTick_def less_Suc_eq numeral_2_eq_2)
  have m: "''P::m'' \<in> set (forecasterModelsOf config1)"
    by (simp add: forecasterModelsOf_def config1_def)
  have t: "\<not> truthy (persistentModelErrors
                        (tickLoop envSteady config1 ticks5 (forecasterModelsOf config1) 2 0
                           (initialState (forecasterModelsOf config1)))) ''P::m''"
    by code_simp
  from loop_stops_after_forecast_step [OF h1 h2 h3, of envSteady] m t h1 h2 h3
    run_null_next_results
  show ?thesis
    by (auto simp: ticks5_def mkTick_def)
qed

text \<open>
  The claim as stated fails: in that run the next tick of the index 2 has no value, and
  the forecaster is called for tick 2 all the same, before the loop stops.
\<close>

theorem loop_stops_before_forecast_counterexample:
  "pValue (primary (ticks5 ! (2 + 1))) = None
   \<and> calls (runLoop envSteady config1 ticks5) =
        [ForecastCall 0 ''P::m'' 0 True, JudgeCall 0 ''P::m'' True,
         ForecastCall 1 ''P::m'' 0 True, JudgeCall 1 ''P::m'' True,
         ForecastCall 2 ''P::m'' 0 True]
   \<and> ForecastCall 2 ''P::m'' 0 True \<in> set (calls (runLoop envSteady config1 ticks5))
   \<and> map tickIndex (tickResults (runLoop envSteady config1 ticks5)) = [0, 1]"
  using run_null_next_calls run_null_next_results
  by (simp add: ticks5_def mkTick_def)

section \<open>Forecasts that were never evaluated\<close>

lemma extractStep_evaluations:
  assumes "i < length trs"
  shows "extractStep ticks (map (\<lambda>r. r \<lparr> evaluations := ev r \<rparr>) trs) i acc
           = extractStep ticks trs i acc"
proof -
  from assms have "forecasts (map (\<lambda>r. r \<lparr> evaluations := ev r \<rparr>) trs ! i) = forecasts (trs ! i)"
    by simp
  then show ?thesis unfolding extractStep_def by (rule arg_cong)
qed

lemma extractSeries_evaluations:
  "extractSeries ticks (map (\<lambda>r. r \<lparr> evaluations := ev r \<rparr>) trs) models
     = extractSeries ticks trs models"
proof -
  have "fold (extractStep ticks (map (\<lambda>r. r \<lparr> evaluations := ev r \<rparr>) trs)) [0..<length trs] a
          = fold (extractStep ticks trs) [0..<length trs] a" for a
    by (rule fold_cong) (auto simp: extractStep_evaluations)
  then show ?thesis by (simp add: extractSeries_def)
qed

lemma calculate_evaluations:
  "calculateAggregateScores ticks (map (\<lambda>r. r \<lparr> evaluations := ev r \<rparr>) trs) models errors
     = calculateAggregateScores ticks trs models errors"
  by (simp add: calculateAggregateScores_def extractSeries_evaluations)

lemma sample_in_codeSeries:
  assumes "i < length trs" and "actualAt ticks i = Some prevA"
    and "actualAt ticks (i + 1) = Some curA" and "(m, f) \<in> set (forecasts (trs ! i))"
  shows "(prediction f, confidence f, curA, prevA) \<in> set (codeSeries ticks trs m)"
proof -
  from assms(4) have "(prediction f, confidence f, curA, prevA)
                        \<in> set (tickSamples prevA curA (forecasts (trs ! i)) m)"
    by (force simp: tickSamples_def)
  with assms(2,3) have "(prediction f, confidence f, curA, prevA)
                        \<in> set (positionSamples ticks trs m i)"
    by (simp add: positionSamples_def)
  with assms(1) show ?thesis by (auto simp: codeSeries_def)
qed

lemma benchmarked_exists:
  assumes "length trs \<le> length ticks" and "m \<in> set models" and "codeSeries ticks trs m \<noteq> []"
  shows "\<exists>b \<in> set (benchmarked ticks trs models). modelId b = m"
proof -
  from extractSeries_ok [OF assms(1), of models] obtain st :: "(string \<times> Stats) list" where
    st: "extractSeries ticks trs models = Inr st" by blast
  let ?r = "actualsRange (concat (map (\<lambda>e. actuals (snd e)) st))"
  let ?s = "addSamples noStats (codeSeries ticks trs m)"
  from assms(3) have "sPredictions ?s \<noteq> []"
    by (simp add: addSamples_def noStats_def)
  then have "benchmarkOf ?r (int (length ticks) - 1) m ?s \<noteq> None"
    by (simp add: benchmarkOf_None)
  then obtain b where b: "benchmarkOf ?r (int (length ticks) - 1) m ?s = Some b" by blast
  with assms(1,2) st have "b \<in> set (benchmarked ticks trs models)"
    unfolding benchmarked_iff by blast
  moreover from benchmarkOf_Some(1) [OF b] have "modelId b = m" .
  ultimately show ?thesis by blast
qed

text \<open>
  Claim C10. The engine never reads the evaluations of a tick result: replacing them by
  anything leaves the report unchanged. For the tick result at a position \<open>i\<close> for which
  \<open>ticks[i]\<close> and \<open>ticks[i + 1]\<close> have values, every configured model with an entry in its
  forecasts gets the sample \<open>(prediction, confidence, actualNext, actualPrev)\<close> in its
  series, whether or not it has an entry in the evaluations; the model is then
  benchmarked, and its number of predictions and its completion rate count that sample.
\<close>

theorem samples_ignore_evaluations:
  assumes "length trs \<le> length ticks" and "i < length trs"
    and "actualAt ticks i = Some prevA" and "actualAt ticks (i + 1) = Some curA"
    and "(m, f) \<in> set (forecasts (trs ! i))" and "m \<in> set models"
  shows "(prediction f, confidence f, curA, prevA) \<in> set (codeSeries ticks trs m)
       \<and> (\<exists>st. extractSeries ticks trs models = Inr st
              \<and> map_of st m = Some (addSamples noStats (codeSeries ticks trs m)))
       \<and> (\<exists>b \<in> set (benchmarked ticks trs models).
              modelId b = m \<and> 0 < predictions b
              \<and> predictions b = length (codeSeries ticks trs m)
              \<and> completionRate b = real (predictions b) / (real (length ticks) - 1) * 100)
       \<and> calculateAggregateScores ticks (map (\<lambda>r. r \<lparr> evaluations := ev r \<rparr>) trs) models errors
           = calculateAggregateScores ticks trs models errors"
proof -
  have s: "(prediction f, confidence f, curA, prevA) \<in> set (codeSeries ticks trs m)"
    by (rule sample_in_codeSeries [OF assms(2,3,4,5)])
  then have ne: "codeSeries ticks trs m \<noteq> []" by auto
  from extractSeries_ok [OF assms(1), of models] assms(6)
  have e: "\<exists>st. extractSeries ticks trs models = Inr st
              \<and> map_of st m = Some (addSamples noStats (codeSeries ticks trs m))"
    by auto
  from benchmarked_exists [OF assms(1,6) ne] obtain b where
    b: "b \<in> set (benchmarked ticks trs models)" "modelId b = m" by blast
  from benchmarked_facts(2,3,5) [OF b(1)] b
  have B: "\<exists>b \<in> set (benchmarked ticks trs models).
              modelId b = m \<and> 0 < predictions b
              \<and> predictions b = length (codeSeries ticks trs m)
              \<and> completionRate b = real (predictions b) / (real (length ticks) - 1) * 100"
    by auto
  show ?thesis
    by (intro conjI) (rule s, rule e, rule B, rule calculate_evaluations)
qed

lemma run_judge_fails: "tickResults (runLoop envJudgeFails config2 ticks3) = resultsJudgeFails"
  by code_simp

lemma run_judge_fails_calls:
  "calls (runLoop envJudgeFails config2 ticks3) =
     [ForecastCall 0 ''P::a'' 0 True, ForecastCall 0 ''P::b'' 0 True,
      JudgeCall 0 ''P::a'' False, JudgeCall 0 ''P::b'' True,
      ForecastCall 1 ''P::b'' 0 True, JudgeCall 1 ''P::b'' True]"
  by code_simp

lemma length_ticks3: "length ticks3 = 3"
  by (simp add: ticks3_def)

lemma series_judge_fails:
  "codeSeries ticks3 resultsJudgeFails ''P::a'' = [(108, 0.6, 110, 100)]"
  by (simp add: codeSeries_def positionSamples_def actualAt_def tickSamples_def example_defs
        ticks3_def resultsJudgeFails_def upt2)

text \<open>
  In the run \<open>envJudgeFails\<close> the evaluation of the forecaster \<open>P::a\<close> fails on tick 0, its
  only call of the judge; the tick result of tick 0 is committed with its forecast and
  without an evaluation for it, and the engine benchmarks it with one prediction and a
  completion rate of 50.
\<close>

theorem samples_ignore_evaluations_witness:
  "tickResults (runLoop envJudgeFails config2 ticks3) = resultsJudgeFails
   \<and> JudgeCall 0 ''P::a'' False \<in> set (calls (runLoop envJudgeFails config2 ticks3))
   \<and> map fst (forecasts (resultsJudgeFails ! 0)) = [''P::a'', ''P::b'']
   \<and> map fst (evaluations (resultsJudgeFails ! 0)) = [''P::b'']
   \<and> (108, 0.6, 110, 100) \<in> set (codeSeries ticks3 resultsJudgeFails ''P::a'')
   \<and> (\<exists>b \<in> set (benchmarked ticks3 resultsJudgeFails (forecasterModelsOf config2)).
          modelId b = ''P::a'' \<and> predictions b = 1 \<and> completionRate b = 50)"
proof -
  have h1: "length resultsJudgeFails \<le> length ticks3"
    by (simp add: resultsJudgeFails_def ticks3_def)
  have h2: "0 < length resultsJudgeFails" by (simp add: resultsJudgeFails_def)
  have h3: "actualAt ticks3 0 = Some 100" by (simp add: actualAt_def ticks3_def mkTick_def)
  have h4: "actualAt ticks3 (0 + 1) = Some 110" by (simp add: actualAt_def ticks3_def mkTick_def)
  have h5: "(''P::a'', mkForecast 108 0.6) \<in> set (forecasts (resultsJudgeFails ! 0))"
    by (simp add: resultsJudgeFails_def mkResult_def)
  have h6: "''P::a'' \<in> set (forecasterModelsOf config2)"
    by (simp add: forecasterModelsOf_def config2_def)
  from samples_ignore_evaluations [OF h1 h2 h3 h4 h5 h6]
  have "(\<exists>b \<in> set (benchmarked ticks3 resultsJudgeFails (forecasterModelsOf config2)).
              modelId b = ''P::a'' \<and> 0 < predictions b
              \<and> predictions b = length (codeSeries ticks3 resultsJudgeFails ''P::a'')
              \<and> completionRate b = real (predictions b) / (real (length ticks3) - 1) * 100)"
    and "(prediction (mkForecast 108 0.6), confidence (mkForecast 108 0.6), 110, 100)
           \<in> set (codeSeries ticks3 resultsJudgeFails ''P::a'')"
    by blast+
  then have "\<exists>b \<in> set (benchmarked ticks3 resultsJudgeFails (forecasterModelsOf config2)).
          modelId b = ''P::a'' \<and> predictions b = 1 \<and> completionRate b = 50"
    and "(108, 0.6, 110, 100) \<in> set (codeSeries ticks3 resultsJudgeFails ''P::a'')"
    using length_ticks3 by (auto simp: series_judge_fails mkForecast_def)
  with run_judge_fails run_judge_fails_calls show ?thesis
    by (simp add: resultsJudgeFails_def mkResult_def)
qed

section \<open>Permanent errors\<close>

lemma tickLoop_sticky:
  assumes "truthy (persistentModelErrors st) m"
  shows "map_of (persistentModelErrors (tickLoop env config ticks models k n st)) m
           = map_of (persistentModelErrors st) m
       \<and> (\<exists>new. calls (tickLoop env config ticks models k n st) = calls st @ new
              \<and> (\<forall>e \<in> set new. eventModel e \<noteq> m))"
  using assms
proof (induction k arbitrary: n st)
  case 0
  then show ?case by simp
next
  case (Suc k)
  let ?st' = "flowState (tickStep env config ticks models n st)"
  from tickStep_summary [of env config ticks models n st] obtain new rs where
    S: "calls ?st' = calls st @ new
         \<and> tickResults ?st' = tickResults st @ rs
         \<and> (\<forall>e \<in> set new. eventTick e = n
               \<and> (\<forall>j mid k ok. e = ForecastCall j mid k ok \<longrightarrow> k < 3)
               \<and> \<not> truthy (persistentModelErrors st) (eventModel e))
         \<and> (\<forall>m. length (filter (isJudgeCall n m) new) \<le> 1)
         \<and> (\<forall>j m. JudgeCall j m False \<in> set new \<longrightarrow> truthy (persistentModelErrors ?st') m)
         \<and> (\<forall>m. truthy (persistentModelErrors st) m \<longrightarrow>
               map_of (persistentModelErrors ?st') m = map_of (persistentModelErrors st) m)
         \<and> (\<forall>r \<in> set rs. tickIndex r = n)"
    by (elim exE)
  have c: "calls ?st' = calls st @ new" using S by (elim conjE)
  have nm: "eventModel e \<noteq> m" if "e \<in> set new" for e
  proof -
    have "\<not> truthy (persistentModelErrors st) (eventModel e)"
      using S that by (elim conjE) blast
    with Suc.prems show ?thesis by auto
  qed
  have keep: "map_of (persistentModelErrors ?st') m = map_of (persistentModelErrors st) m"
    using S Suc.prems by (elim conjE) blast
  with Suc.prems have t': "truthy (persistentModelErrors ?st') m" by (simp add: truthy_def)
  show ?case
  proof (cases "tickStep env config ticks models n st")
    case (Break s)
    with c keep nm show ?thesis by auto
  next
    case (Next s)
    with c keep t' have cs: "calls s = calls st @ new"
      and ks: "map_of (persistentModelErrors s) m = map_of (persistentModelErrors st) m"
      and ts: "truthy (persistentModelErrors s) m" by simp_all
    from Suc.IH [OF ts, of "Suc n"] obtain new' where
      a: "map_of (persistentModelErrors (tickLoop env config ticks models k (Suc n) s)) m
            = map_of (persistentModelErrors s) m"
      and b: "calls (tickLoop env config ticks models k (Suc n) s) = calls s @ new'"
      and d: "\<forall>e \<in> set new'. eventModel e \<noteq> m"
      by blast
    have "calls (tickLoop env config ticks models (Suc k) n st) = calls st @ (new @ new')"
      using Next b cs by simp
    moreover have "\<forall>e \<in> set (new @ new'). eventModel e \<noteq> m" using nm d by auto
    moreover have "map_of (persistentModelErrors (tickLoop env config ticks models (Suc k) n st)) m
           = map_of (persistentModelErrors st) m"
      using Next a ks by simp
    ultimately show ?thesis by blast
  qed
qed

lemma settleForecast_rejected:
  assumes "recordedMessage m why \<noteq> []"
  shows "truthy (snd (settleForecast (ForecastRejected m why) (tf, errs))) m"
  using assms
  by (auto simp: settleForecast_def Let_def recordedMessage_def truthy_update_same)

lemma fold_settleForecast_rejected:
  assumes "\<forall>r \<in> set rs. settledModel r = m \<longrightarrow> r = ForecastRejected m why"
    and "recordedMessage m why \<noteq> []"
    and "truthy errs m \<or> (\<exists>r \<in> set rs. settledModel r = m)"
  shows "truthy (snd (fold settleForecast rs (tf, errs))) m"
  using assms
proof (induction rs arbitrary: tf errs)
  case Nil
  then show ?case by simp
next
  case (Cons r rs)
  obtain tf' errs' where s: "settleForecast r (tf, errs) = (tf', errs')"
    by (cases "settleForecast r (tf, errs)") auto
  have t: "truthy errs' m \<or> (\<exists>r \<in> set rs. settledModel r = m)"
  proof (cases "truthy errs m")
    case True
    from settleForecast_truthy [OF True, of r tf] s True show ?thesis by (simp add: truthy_def)
  next
    case False
    show ?thesis
    proof (cases "settledModel r = m")
      case True
      with Cons.prems(1) have "r = ForecastRejected m why" by simp
      with settleForecast_rejected [OF Cons.prems(2), of tf errs] s show ?thesis by simp
    next
      case nr: False
      with False Cons.prems(3) show ?thesis by auto
    qed
  qed
  from Cons.prems(1) have "\<forall>r \<in> set rs. settledModel r = m \<longrightarrow> r = ForecastRejected m why"
    by simp
  from Cons.IH [OF this Cons.prems(2) t, of tf'] s show ?case by simp
qed

lemma forecast_failure_recorded:
  assumes "m \<in> set models"
    and "fst (forecastPromise env config i st m) = ForecastRejected m why"
    and "recordedMessage m why \<noteq> []"
  shows "truthy (persistentModelErrors (snd (forecastStep env config models i st))) m"
proof -
  let ?rs = "map fst (map (forecastPromise env config i st) models)"
  have a: "\<forall>r \<in> set ?rs. settledModel r = m \<longrightarrow> r = ForecastRejected m why"
  proof (intro ballI impI)
    fix r assume r: "r \<in> set ?rs" "settledModel r = m"
    from r(1) obtain m' where m': "r = fst (forecastPromise env config i st m')" by auto
    with r(2) have "m' = m" by (simp add: forecastPromise_model)
    with m' assms(2) show "r = ForecastRejected m why" by simp
  qed
  have "fst (forecastPromise env config i st m) \<in> set ?rs" using assms(1) by auto
  then have b: "truthy (persistentModelErrors st) m \<or> (\<exists>r \<in> set ?rs. settledModel r = m)"
    using forecastPromise_model [of env config i st m] by blast
  from fold_settleForecast_rejected [OF a assms(3) b, of "[]"]
  show ?thesis by (simp add: forecastStep_def Let_def)
qed


section \<open>The tick results of a run\<close>

lemma tickStep_results:
  "\<exists>rs. tickResults (flowState (tickStep env config ticks models i st)) = tickResults st @ rs
        \<and> length rs \<le> 1
        \<and> (\<forall>r \<in> set rs. tickIndex r = i \<and> tickData r = ticks ! i)"
proof (cases "length ticks \<le> i + 1")
  case True
  then show ?thesis by (simp add: tickStep_def)
next
  case False
  obtain tf st2 where fs: "forecastStep env config models i st = (tf, st2)"
    by (cases "forecastStep env config models i st") auto
  from forecastStep_fields(2) [of env config models i st] fs
  have r2: "tickResults st2 = tickResults st" by simp
  show ?thesis
  proof (cases "pValue (primary (ticks ! (i + 1)))")
    case None
    with False fs r2 show ?thesis by (simp add: tickStep_def)
  next
    case (Some a)
    from evaluationStep_results [of env config i "ticks ! i" a tf st2] obtain rs where
      "tickResults (evaluationStep env config i (ticks ! i) a tf st2) = tickResults st2 @ rs"
      "length rs \<le> 1" "\<forall>r \<in> set rs. tickIndex r = i \<and> tickData r = ticks ! i"
      by auto
    with Some False fs r2 show ?thesis by (auto simp: tickStep_def)
  qed
qed

lemma tickLoop_results_length:
  "length (tickResults (tickLoop env config ticks models k n st)) \<le> length (tickResults st) + k"
proof (induction k arbitrary: n st)
  case 0
  show ?case by simp
next
  case (Suc k)
  from tickStep_results [of env config ticks models n st] obtain rs where
    rs: "tickResults (flowState (tickStep env config ticks models n st)) = tickResults st @ rs"
      "length rs \<le> 1" by blast
  show ?case
  proof (cases "tickStep env config ticks models n st")
    case (Break s)
    with rs show ?thesis by simp
  next
    case (Next s)
    with rs have "length (tickResults s) \<le> length (tickResults st) + 1" by simp
    with Suc.IH [of "Suc n" s] Next show ?thesis by simp
  qed
qed

lemma runLoop_results_length:
  "length (tickResults (runLoop env config ticks)) \<le> length ticks - 1"
proof -
  have "maxTicksToProcess config ticks \<le> length ticks - 1"
    by (simp add: maxTicksToProcess_def)
  with tickLoop_results_length
         [of env config ticks "forecasterModelsOf config" "maxTicksToProcess config ticks" 0
             "initialState (forecasterModelsOf config)"]
  show ?thesis by (simp add: runLoop_def initialState_def)
qed

text \<open>
  The scoring engine never reads past the end of \<open>ticks\<close> when \<open>runBacktest\<close> calls it
  after the loop: the call returns a report, whatever failed during the loop.
\<close>

lemma run_scores_returned:
  "\<exists>results. calculateAggregateScores ticks (tickResults (runLoop env config ticks))
              (forecasterModelsOf config)
              (formatErrors (persistentModelErrors (runLoop env config ticks)))
            = Inr results"
proof -
  have "length (tickResults (runLoop env config ticks)) \<le> length ticks"
    using runLoop_results_length [of env config ticks] by simp
  then show ?thesis
    using calc_returns by blast
qed

text \<open>
  The scenario of the specification: three ticks with the values 100, 110 and 105, and a
  forecaster predicting 105 with confidence 0.8 and then 108 with confidence 0.6. It has
  two samples, a directional accuracy of 100 and an RMSE of \<open>sqrt 17\<close>.
\<close>

lemma spec_scenario:
  "map (\<lambda>b. (predictions b, directionalAccuracy b, rmse b, completionRate b))
     (benchmarked ticks3
        [mkResult 0 (Some 100) [(''P::m'', mkForecast 105 0.8)] [(''P::m'', mkJudge 5)],
         mkResult 1 (Some 110) [(''P::m'', mkForecast 108 0.6)] [(''P::m'', mkJudge 3)]]
        [''P::m''])
   = [(2, 100, sqrt 17, 100)]"
proof -
  have "extractSeries ticks3
        [mkResult 0 (Some 100) [(''P::m'', mkForecast 105 0.8)] [(''P::m'', mkJudge 5)],
         mkResult 1 (Some 110) [(''P::m'', mkForecast 108 0.6)] [(''P::m'', mkJudge 3)]]
        [''P::m'']
      = Inr [(''P::m'', \<lparr> sPredictions = [105, 108], confidences = [0.8, 0.6],
                        actuals = [110, 105], prevActuals = [100, 110] \<rparr>)]"
    by (simp add: extractSeries_def extractStep_def initStats_def example_defs ticks3_def
          pushSample_def noStats_def upt2)
  then show ?thesis
    by (simp add: benchmarked_def benchmarksOf_def List.map_filter_def actualsRange_def
          benchmarkOf_def upt2 sampleStep_def outcome_def normRmseOf_def splitId_Pm ticks3_def
          Let_def)
qed

section \<open>Tick results at their positions\<close>

lemma forecastPromise_result:
  assumes "\<not> truthy (persistentModelErrors st) m"
  shows "(\<exists>v. fst (forecastPromise env config i st m) = ForecastFulfilled m v)
       \<or> (\<exists>why fb k. fst (forecastPromise env config i st m) = ForecastRejected m why
              \<and> forecaster env i m fb k = Rejected why)"
proof -
  let ?fb = "sliceLast (feedbackLimit config) (historyOf (modelFeedbackHistory st) m)"
  let ?gen = "forecaster env i m ?fb"
  let ?rnd = "random env i m"
  from retry_shape [of ?gen ?rnd m] obtain n where
    g: "getForecastWithRetries ?gen ?rnd m = (?gen (n - 1), retryTrace ?gen ?rnd n)"
    by blast
  show ?thesis
  proof (cases "?gen (n - 1)")
    case (Fulfilled v)
    with assms g show ?thesis by (simp add: forecastPromise_def Let_def)
  next
    case (Rejected why)
    with assms g have "fst (forecastPromise env config i st m) = ForecastRejected m why"
      by (simp add: forecastPromise_def Let_def)
    with Rejected show ?thesis by blast
  qed
qed

lemma settleForecast_keys:
  assumes "m \<in> fst ` set tf \<or> r = ForecastFulfilled m v"
  shows "m \<in> fst ` set (fst (settleForecast r (tf, errs)))"
proof -
  from assms have "map_of tf m \<noteq> None \<or> r = ForecastFulfilled m v"
    by (simp add: map_of_eq_None_iff)
  then have "map_of (fst (settleForecast r (tf, errs))) m \<noteq> None"
    by (cases r) (auto simp: settleForecast_def Let_def update_conv')
  then show ?thesis by (simp add: map_of_eq_None_iff)
qed

lemma fold_settleForecast_keys:
  assumes "m \<in> fst ` set tf \<or> ForecastFulfilled m v \<in> set rs"
  shows "m \<in> fst ` set (fst (fold settleForecast rs (tf, errs)))"
  using assms
proof (induction rs arbitrary: tf errs)
  case Nil
  then show ?case by simp
next
  case (Cons r rs)
  obtain tf' errs' where s: "settleForecast r (tf, errs) = (tf', errs')"
    by (cases "settleForecast r (tf, errs)") auto
  have "m \<in> fst ` set tf' \<or> ForecastFulfilled m v \<in> set rs"
  proof (cases "ForecastFulfilled m v \<in> set rs")
    case True
    then show ?thesis by simp
  next
    case False
    with Cons.prems have "m \<in> fst ` set tf \<or> r = ForecastFulfilled m v" by auto
    from settleForecast_keys [OF this, of errs] s show ?thesis by simp
  qed
  from Cons.IH [OF this, of errs'] s show ?case by simp
qed

lemma forecastStep_fulfilled:
  assumes "m \<in> set models"
    and "fst (forecastPromise env config i st m) = ForecastFulfilled m v"
  shows "m \<in> fst ` set (fst (forecastStep env config models i st))"
proof -
  from assms have "ForecastFulfilled m v \<in> set (map fst (map (forecastPromise env config i st) models))"
    by force
  then have "m \<in> fst ` set [] \<or> ForecastFulfilled m v
               \<in> set (map fst (map (forecastPromise env config i st) models))"
    by simp
  from fold_settleForecast_keys [OF this, of "persistentModelErrors st"]
  show ?thesis by (simp add: forecastStep_def Let_def)
qed

lemma forecastStep_all_truthy:
  assumes "\<forall>m \<in> set models. truthy (persistentModelErrors st) m"
  shows "fst (forecastStep env config models i st) = []"
proof -
  have "map_of (fst (forecastStep env config models i st)) m = None" for m
  proof (cases "m \<in> set models")
    case True
    with assms have "truthy (persistentModelErrors st) m" by simp
    then show ?thesis by (rule forecastStep_truthy(2))
  next
    case False
    then show ?thesis by (rule forecastStep_not_model(2))
  qed
  then have "m \<notin> fst ` set (fst (forecastStep env config models i st))" for m
    by (simp add: map_of_eq_None_iff)
  then show ?thesis
    by (cases "fst (forecastStep env config models i st)") force+
qed

lemma settleEvaluation_nonempty:
  assumes "te \<noteq> [] \<or> (\<exists>m v. r = (m, Fulfilled v))"
  shows "fst (settleEvaluation sf a r (te, st)) \<noteq> []"
proof -
  obtain m oc where r: "r = (m, oc)" by (cases r) auto
  have u: "AList.update k v al \<noteq> []" for k :: string and v :: JudgeResult and al
    by (cases al) auto
  from assms r show ?thesis
    by (cases oc) (auto simp: settleEvaluation_def Let_def u)
qed

lemma fold_settleEvaluation_nonempty:
  assumes "te \<noteq> [] \<or> (\<exists>m v. (m, Fulfilled v) \<in> set rs)"
  shows "fst (fold (settleEvaluation sf a) rs (te, st)) \<noteq> []"
  using assms
proof (induction rs arbitrary: te st)
  case Nil
  then show ?case by simp
next
  case (Cons r rs)
  obtain te' st' where s: "settleEvaluation sf a r (te, st) = (te', st')"
    by (cases "settleEvaluation sf a r (te, st)") auto
  have "te' \<noteq> [] \<or> (\<exists>m v. (m, Fulfilled v) \<in> set rs)"
  proof (cases "\<exists>m v. (m, Fulfilled v) \<in> set rs")
    case True
    then show ?thesis by simp
  next
    case False
    with Cons.prems have "te \<noteq> [] \<or> (\<exists>m v. r = (m, Fulfilled v))" by auto
    from settleEvaluation_nonempty [OF this, of sf a st] s show ?thesis by simp
  qed
  from Cons.IH [OF this, of st'] s show ?case by simp
qed

lemma evaluationStep_no_commit:
  assumes "tickResults (evaluationStep env config i cur a tf st2) = tickResults st2"
    and "m \<in> fst ` set tf"
  shows "truthy (persistentModelErrors (evaluationStep env config i cur a tf st2)) m"
proof -
  let ?rs = "map (evaluationPromise env config i st2 a) tf"
  let ?st3 = "st2 \<lparr> calls := calls st2 @ map (judgeEvent i) ?rs \<rparr>"
  let ?ev = "fold (settleEvaluation tf a) ?rs ([], ?st3)"
  have tr: "tickResults (snd ?ev) = tickResults st2"
    using fold_settleEvaluation_fields [of tf a ?rs "[]" ?st3] by simp
  have empty: "fst ?ev = []"
  proof (rule ccontr)
    assume "fst ?ev \<noteq> []"
    then have "tickResults (evaluationStep env config i cur a tf st2)
                 = tickResults (snd ?ev) @ [\<lparr> tickIndex = i, tickData = cur,
                      forecasts = tf, evaluations = fst ?ev \<rparr>]"
      by (simp add: evaluationStep_def Let_def)
    with assms(1) tr show False by simp
  qed
  have nof: "\<not> (\<exists>m v. (m, Fulfilled v) \<in> set ?rs)"
  proof
    assume "\<exists>m v. (m, Fulfilled v) \<in> set ?rs"
    then have "[] \<noteq> [] \<or> (\<exists>m v. (m, Fulfilled v) \<in> set ?rs)" by simp
    from fold_settleEvaluation_nonempty [OF this, of tf a ?st3] empty show False by simp
  qed
  from assms(2) obtain e where e: "e \<in> set tf" "fst e = m" by auto
  let ?r = "evaluationPromise env config i st2 a e"
  have r: "?r \<in> set ?rs" using e(1) by simp
  have fr: "fst ?r = m" using e(2) by (simp add: evaluationPromise_fst)
  obtain why where "snd ?r = Rejected why"
  proof (cases "snd ?r")
    case (Fulfilled v)
    with fr have "?r = (m, Fulfilled v)" by (metis prod.collapse)
    with r nof show ?thesis by metis
  next
    case (Rejected why)
    then show ?thesis by (rule that)
  qed
  with fr have "?r = (m, Rejected why)" by (metis prod.collapse)
  with r have "(m, Rejected why) \<in> set ?rs" by simp
  from fold_settleEvaluation_rejected [OF this, of tf a "[]" ?st3] empty
  show ?thesis by (simp add: evaluationStep_def Let_def)
qed

lemma ownTicks_append:
  assumes "ownTicks ticks trs" and "tickIndex r = length trs" and "tickData r = ticks ! length trs"
  shows "ownTicks ticks (trs @ [r])"
  unfolding ownTicks_def
proof (intro allI impI)
  fix k assume "k < length (trs @ [r])"
  then consider "k < length trs" | "k = length trs" by fastforce
  then show "tickIndex ((trs @ [r]) ! k) = k \<and> tickData ((trs @ [r]) ! k) = ticks ! k"
  proof cases
    case 1
    with assms(1) show ?thesis by (simp add: ownTicks_def nth_append)
  next
    case 2
    with assms(2,3) show ?thesis by simp
  qed
qed

lemma evaluationStep_no_forecasts:
  "tickResults (evaluationStep env config i cur a [] st2) = tickResults st2"
  by (simp add: evaluationStep_def)

lemma posInv_step:
  assumes inv: "posInv ticks models n st" and env: "nonEmptyFailures env"
  shows "case tickStep env config ticks models n st of
           Next s \<Rightarrow> posInv ticks models (Suc n) s
         | Break s \<Rightarrow> ownTicks ticks (tickResults s)"
proof (cases "length ticks \<le> n + 1")
  case True
  with inv show ?thesis by (simp add: tickStep_def posInv_def)
next
  case False
  from inv have own: "ownTicks ticks (tickResults st)"
    and len: "length (tickResults st) \<le> n"
    and alt: "length (tickResults st) = n \<or> (\<forall>m \<in> set models. truthy (persistentModelErrors st) m)"
    by (simp_all add: posInv_def)
  obtain tf st2 where fs: "forecastStep env config models n st = (tf, st2)"
    by (cases "forecastStep env config models n st") auto
  from forecastStep_fields(2) [of env config models n st] fs
  have r2: "tickResults st2 = tickResults st" by simp
  show ?thesis
  proof (cases "pValue (primary (ticks ! (n + 1)))")
    case None
    with False fs r2 own show ?thesis by (simp add: tickStep_def)
  next
    case (Some a)
    let ?s = "evaluationStep env config n (ticks ! n) a tf st2"
    from Some False fs have step: "tickStep env config ticks models n st = Next ?s"
      by (simp add: tickStep_def)
    from evaluationStep_results [of env config n "ticks ! n" a tf st2] obtain rs where
      rs: "tickResults ?s = tickResults st2 @ rs" "length rs \<le> 1"
        "\<forall>r \<in> set rs. tickIndex r = n \<and> tickData r = ticks ! n" by blast
    have keep: "truthy (persistentModelErrors ?s) m" if "truthy (persistentModelErrors st) m" for m
    proof -
      from forecastStep_truthy(1) [OF that, of env config models n] fs
      have e2: "map_of (persistentModelErrors st2) m = map_of (persistentModelErrors st) m"
        by simp
      with that have t2: "truthy (persistentModelErrors st2) m" by (simp add: truthy_def)
      from evaluationStep_truthy [OF t2, of env config n "ticks ! n" a tf] t2
      show ?thesis by (simp add: truthy_def)
    qed
    have "posInv ticks models (Suc n) ?s"
    proof (cases "\<forall>m \<in> set models. truthy (persistentModelErrors st) m")
      case True
      from forecastStep_all_truthy [OF True, of env config n] fs have "tf = []" by simp
      then have "tickResults ?s = tickResults st"
        by (simp add: evaluationStep_no_forecasts r2)
      with own len True keep show ?thesis by (simp add: posInv_def)
    next
      case nt: False
      with alt have n: "length (tickResults st) = n" by blast
      show ?thesis
      proof (cases rs)
        case Nil
        with rs(1) have nc: "tickResults ?s = tickResults st2" by simp
        have "truthy (persistentModelErrors ?s) m" if m: "m \<in> set models" for m
        proof (cases "truthy (persistentModelErrors st) m")
          case True
          then show ?thesis by (rule keep)
        next
          case False
          from forecastPromise_result [OF False, of env config n]
          consider v where "fst (forecastPromise env config n st m) = ForecastFulfilled m v"
            | why fb k where "fst (forecastPromise env config n st m) = ForecastRejected m why"
                "forecaster env n m fb k = Rejected why"
            by blast
          then show ?thesis
          proof cases
            case 1
            from forecastStep_fulfilled [OF m 1] fs have "m \<in> fst ` set tf" by simp
            from evaluationStep_no_commit [OF nc this] show ?thesis .
          next
            case 2
            from env 2(2) have "recordedMessage m why \<noteq> []"
              unfolding nonEmptyFailures_def by blast
            from forecast_failure_recorded [OF m 2(1) this] fs
            have t2: "truthy (persistentModelErrors st2) m" by simp
            from evaluationStep_truthy [OF t2, of env config n "ticks ! n" a tf] t2
            show ?thesis by (simp add: truthy_def)
          qed
        qed
        with own len nc r2 show ?thesis by (simp add: posInv_def)
      next
        case (Cons r rest)
        with rs(2) have "rs = [r]" by simp
        with rs r2 n have tr: "tickResults ?s = tickResults st @ [r]"
          and r: "tickIndex r = length (tickResults st)" "tickData r = ticks ! length (tickResults st)"
          by simp_all
        from ownTicks_append [OF own r] tr n show ?thesis by (simp add: posInv_def)
      qed
    qed
    with step show ?thesis by simp
  qed
qed

lemma posInv_loop:
  assumes "posInv ticks models n st" and "nonEmptyFailures env"
  shows "ownTicks ticks (tickResults (tickLoop env config ticks models k n st))"
  using assms(1)
proof (induction k arbitrary: n st)
  case 0
  then show ?case by (simp add: posInv_def)
next
  case (Suc k)
  from posInv_step [OF Suc.prems assms(2), of config]
  show ?case
    by (cases "tickStep env config ticks models n st") (simp_all add: Suc.IH)
qed

text \<open>
  In a run whose forecast failures all have a message that stays non-empty, every tick
  result is committed at the position of its tick index, so the scoring engine reads,
  for each of them, its own tick and the tick after it.
\<close>

lemma run_results_at_positions:
  assumes "nonEmptyFailures env"
  shows "ownTicks ticks (tickResults (runLoop env config ticks))"
proof -
  have "posInv ticks (forecasterModelsOf config) 0 (initialState (forecasterModelsOf config))"
    by (simp add: posInv_def ownTicks_def initialState_def)
  from posInv_loop [OF this assms] show ?thesis by (simp add: runLoop_def)
qed

lemma run_series_as_specified:
  assumes "nonEmptyFailures env"
  shows "codeSeries ticks (tickResults (runLoop env config ticks)) m
           = specSeries ticks (tickResults (runLoop env config ticks)) m"
proof -
  have "length (tickResults (runLoop env config ticks)) \<le> length ticks"
    using runLoop_results_length [of env config ticks] by simp
  moreover from run_results_at_positions [OF assms, of ticks config]
  have "\<forall>i<length (tickResults (runLoop env config ticks)).
          tickIndex (tickResults (runLoop env config ticks) ! i) = i
          \<and> tickData (tickResults (runLoop env config ticks) ! i) = ticks ! i"
    by (simp add: ownTicks_def)
  ultimately show ?thesis by (rule codeSeries_eq_specSeries)
qed

section \<open>Runs without top performers\<close>

lemma summarise_Nil: "summarise [] ex = emptyResults \<lparr> excludedModels := ex \<rparr>"
  by (simp add: summarise_def)

lemma excluded_cover:
  assumes "filterTop bm = []" and "m \<in> set models"
  shows "m \<in> xModelId ` set (filterExcluded ticks errors models bm)"
proof (cases "m \<in> set (map modelId bm)")
  case True
  then obtain b where b: "b \<in> set bm" "modelId b = m" by auto
  from assms(1) b(1) have "completionRate b < PARTICIPATION_THRESHOLD"
    by (auto simp: filterTop_def filter_empty_conv)
  with b(1) have "insufficientEntry (int (length ticks) - 1) b
                    \<in> set (filterExcluded ticks errors models bm)"
    by (simp add: filterExcluded_def Let_def)
  moreover have "xModelId (insufficientEntry (int (length ticks) - 1) b) = m"
    using b(2) by (simp add: insufficientEntry_fields)
  ultimately show ?thesis by (metis imageI)
next
  case False
  with assms(2) have "failedEntry (int (length ticks) - 1) errors m
                        \<in> set (filterExcluded ticks errors models bm)"
    by (simp add: filterExcluded_def Let_def)
  moreover have "xModelId (failedEntry (int (length ticks) - 1) errors m) = m"
    by (simp add: failedEntry_fields)
  ultimately show ?thesis by (metis imageI)
qed

text \<open>
  Claim C7. With an empty list of tick results the engine returns a report in which
  every configured model is listed, in order, in \<open>excludedModels\<close> with the reason
  'Failed' and \<open>predictions = 0\<close>, there is no top performer and the four overall scores
  are zero. For any list of tick results that is not longer than \<open>ticks\<close> (so that the
  filter is reached), whenever the filter leaves no top performer the engine returns a
  report, not an error, whose four overall scores are zero, whose \<open>topPerformers\<close> is
  empty and whose \<open>excludedModels\<close> lists every configured model.
\<close>

theorem failed_runs_report_zero:
  "(\<exists>res. calculateAggregateScores ticks [] models errors = Inr res
       \<and> map xModelId (excludedModels res) = models
       \<and> (\<forall>x \<in> set (excludedModels res). reason x = Failed \<and> xPredictions x = 0)
       \<and> topPerformers res = []
       \<and> overallCompositeScore res = 0 \<and> overallDirectionalAccuracy res = 0
       \<and> overallMagnitudeRmse res = 0 \<and> overallAvgConfidence res = 0)
   \<and> (length trs \<le> length ticks \<and> filterTop (benchmarked ticks trs models) = [] \<longrightarrow>
       (\<exists>res. calculateAggregateScores ticks trs models errors = Inr res
          \<and> topPerformers res = []
          \<and> overallCompositeScore res = 0 \<and> overallDirectionalAccuracy res = 0
          \<and> overallMagnitudeRmse res = 0 \<and> overallAvgConfidence res = 0
          \<and> set models \<subseteq> xModelId ` set (excludedModels res)))"
proof (intro conjI)
  have "map xModelId (map (noResultsEntry ticks errors) models) = models"
    by (induction models) (simp_all add: noResultsEntry_fields)
  then show "\<exists>res. calculateAggregateScores ticks [] models errors = Inr res
       \<and> map xModelId (excludedModels res) = models
       \<and> (\<forall>x \<in> set (excludedModels res). reason x = Failed \<and> xPredictions x = 0)
       \<and> topPerformers res = []
       \<and> overallCompositeScore res = 0 \<and> overallDirectionalAccuracy res = 0
       \<and> overallMagnitudeRmse res = 0 \<and> overallAvgConfidence res = 0"
    by (auto simp: calc_empty emptyResults_def noResultsEntry_fields)
next
  show "length trs \<le> length ticks \<and> filterTop (benchmarked ticks trs models) = [] \<longrightarrow>
       (\<exists>res. calculateAggregateScores ticks trs models errors = Inr res
          \<and> topPerformers res = []
          \<and> overallCompositeScore res = 0 \<and> overallDirectionalAccuracy res = 0
          \<and> overallMagnitudeRmse res = 0 \<and> overallAvgConfidence res = 0
          \<and> set models \<subseteq> xModelId ` set (excludedModels res))"
  proof (intro impI, elim conjE)
    assume len: "length trs \<le> length ticks"
      and top: "filterTop (benchmarked ticks trs models) = []"
    show "\<exists>res. calculateAggregateScores ticks trs models errors = Inr res
          \<and> topPerformers res = []
          \<and> overallCompositeScore res = 0 \<and> overallDirectionalAccuracy res = 0
          \<and> overallMagnitudeRmse res = 0 \<and> overallAvgConfidence res = 0
          \<and> set models \<subseteq> xModelId ` set (excludedModels res)"
    proof (cases "trs = []")
      case True
      have "m \<in> xModelId ` set (map (noResultsEntry ticks errors) models)"
        if "m \<in> set models" for m
        using that by (force simp: noResultsEntry_fields)
      then show ?thesis
        using True by (auto simp: calc_empty emptyResults_def)
    next
      case False
      from len obtain res where res: "calculateAggregateScores ticks trs models errors = Inr res"
        using calc_returns [of ticks trs models errors] by auto
      from calc_nonempty [OF res False] top
      have r: "res = emptyResults \<lparr> excludedModels :=
                 filterExcluded ticks errors models (benchmarked ticks trs models) \<rparr>"
        by (simp add: summarise_Nil)
      have "set models \<subseteq> xModelId ` set (excludedModels res)"
        using excluded_cover [OF top] by (auto simp: r)
      with res show ?thesis by (auto simp: r emptyResults_def)
    qed
  qed
qed

lemma models_config1: "forecasterModelsOf config1 = [''P::m'']"
  by (simp add: forecasterModelsOf_def config1_def)

lemma run_all_fail:
  "tickResults (runLoop envAllFail config1 ticks3) = []"
  "formatErrors (persistentModelErrors (runLoop envAllFail config1 ticks3))
     = [(''m'', ''Invalid API Key'')]"
  by code_simp+

lemma backtest_all_fail: "runBacktest envAllFail config1 ticks3 = Inr (allFail_report, [])"
proof -
  have j: "judgeModel config1 \<noteq> []" by (simp add: config1_def)
  show ?thesis
    by (simp add: runBacktest_def Let_def run_all_fail j models_config1 length_ticks3 calc_empty
          noResultsEntry_def splitId_Pm orElse_def truthy_def propKey_def allFail_report_def
          emptyResults_def)
qed

text \<open>
  One collected sample out of five possible ticks leaves no top performer: the report has
  zero overall scores and lists the model as excluded. A run in which the only forecaster
  is refused on every call makes no judge call and has no tick result: the engine is given
  the empty list and \<open>runBacktest\<close> returns the report that lists the model as failed, with
  the message of its first failure.
\<close>

theorem failed_runs_report_zero_witness:
  "length results1 \<le> length ticks6
   \<and> filterTop (benchmarked ticks6 results1 [''P::m'']) = []
   \<and> calculateAggregateScores ticks6 results1 [''P::m''] [] = Inr results1_summary
   \<and> overallCompositeScore results1_summary = 0
   \<and> map xModelId (excludedModels results1_summary) = [''P::m'']
   \<and> (\<exists>res. calculateAggregateScores ticks6 [] [''P::m''] [] = Inr res
         \<and> map reason (excludedModels res) = [Failed])
   \<and> tickResults (runLoop envAllFail config1 ticks3) = []
   \<and> runBacktest envAllFail config1 ticks3 = Inr (allFail_report, [])
   \<and> map reason (excludedModels allFail_report) = [Failed]
   \<and> overallCompositeScore allFail_report = 0"
proof -
  have len: "length results1 \<le> length ticks6" by (simp add: results1_def ticks6_def)
  have top: "filterTop (benchmarked ticks6 results1 [''P::m'']) = []"
    by (simp add: benchmarked_def series1 benchmarksOf1 filterTop_def bench1_def
          PARTICIPATION_THRESHOLD_def)
  from failed_runs_report_zero [of ticks6 "[''P::m'']" "[]" results1] len top calc1
  have a: "overallCompositeScore results1_summary = 0
   \<and> map xModelId (excludedModels results1_summary) = [''P::m'']
   \<and> (\<exists>res. calculateAggregateScores ticks6 [] [''P::m''] [] = Inr res
         \<and> map reason (excludedModels res) = [Failed])"
    by (auto simp: results1_summary_def)
  have c: "calculateAggregateScores ticks3 [] [''P::m''] [(''m'', ''Invalid API Key'')]
             = Inr allFail_report"
    by (simp add: calc_empty noResultsEntry_def splitId_Pm orElse_def truthy_def propKey_def
          allFail_report_def emptyResults_def length_ticks3)
  have "\<exists>res. calculateAggregateScores ticks3 [] [''P::m''] [(''m'', ''Invalid API Key'')] = Inr res
       \<and> map xModelId (excludedModels res) = [''P::m'']
       \<and> (\<forall>x \<in> set (excludedModels res). reason x = Failed \<and> xPredictions x = 0)
       \<and> topPerformers res = []
       \<and> overallCompositeScore res = 0 \<and> overallDirectionalAccuracy res = 0
       \<and> overallMagnitudeRmse res = 0 \<and> overallAvgConfidence res = 0"
    using failed_runs_report_zero [of ticks3 "[''P::m'']" "[(''m'', ''Invalid API Key'')]" "[]"]
    by (rule conjunct1)
  with c have b0: "map xModelId (excludedModels allFail_report) = [''P::m'']
       \<and> (\<forall>x \<in> set (excludedModels allFail_report). reason x = Failed \<and> xPredictions x = 0)
       \<and> overallCompositeScore allFail_report = 0"
    by simp
  then have b: "map reason (excludedModels allFail_report) = [Failed]
           \<and> overallCompositeScore allFail_report = 0"
    by (cases "excludedModels allFail_report") auto
  from len top calc1 a run_all_fail(1) backtest_all_fail b show ?thesis by simp
qed

end
